theory Spec2Isabelle
  imports Main "HOL-Library.Sublist" "HOL-Library.AList"
begin

section \<open>Python values and the built-ins that main.py uses\<close>

text \<open>
  A leaf of the configuration document is a Python scalar. A string is a list of code points
  below 256. A float is represented by its \<^verbatim>\<open>repr\<close>, the shortest decimal literal that
  reads back as the same float (or \<^verbatim>\<open>inf\<close>, \<^verbatim>\<open>-inf\<close>, \<^verbatim>\<open>nan\<close>), so that
  \<^verbatim>\<open>str\<close> of a float is that literal.
\<close>

datatype pyval = PyStr string | PyInt int | PyFloat string | PyBool bool | PyNone

fun nat_digits :: "nat \<Rightarrow> string" where
  "nat_digits n =
     (if n < 10 then [char_of (48 + n)]
      else nat_digits (n div 10) @ [char_of (48 + n mod 10)])"

declare nat_digits.simps [simp del]

definition int_str :: "int \<Rightarrow> string" where
  "int_str i = (if i < 0 then CHR ''-'' # nat_digits (nat (- i)) else nat_digits (nat i))"

text \<open>\<^verbatim>\<open>str(v)\<close>.\<close>

fun py_str :: "pyval \<Rightarrow> string" where
  "py_str (PyStr s) = s"
| "py_str (PyInt i) = int_str i"
| "py_str (PyFloat r) = r"
| "py_str (PyBool b) = (if b then ''True'' else ''False'')"
| "py_str PyNone = ''None''"

fun is_str :: "pyval \<Rightarrow> bool" where
  "is_str (PyStr s) = True"
| "is_str v = False"

text \<open>
  \<^verbatim>\<open>s.split(",")\<close>: the fields between the commas, empty fields kept, so that the
  empty string gives one empty field.
\<close>

fun split_comma :: "string \<Rightarrow> string list" where
  "split_comma [] = [[]]"
| "split_comma (c # cs) =
     (if c = CHR '','' then [] # split_comma cs
      else (case split_comma cs of
              [] \<Rightarrow> [[c]]
            | t # ts \<Rightarrow> (c # t) # ts))"

text \<open>
  A key of a configuration mapping is a string or an integer (what the YAML keys
  \<^verbatim>\<open>a:\<close> and \<^verbatim>\<open>1:\<close> give); two such keys are equal in Python when they are the same
  here. Keys of other types are outside this model.
\<close>

datatype pykey = KeyStr string | KeyInt int

fun is_str_key :: "pykey \<Rightarrow> bool" where
  "is_str_key (KeyStr s) = True"
| "is_str_key (KeyInt i) = False"

text \<open>\<^verbatim>\<open>dict(items)\<close>: a later pair with a key already present replaces its value in place.\<close>

definition py_dict :: "('k \<times> 'v) list \<Rightarrow> ('k \<times> 'v) list" where
  "py_dict kvs = foldl (\<lambda>d (k, v). AList.update k v d) [] kvs"

subsection \<open>\<^verbatim>\<open>json.dump\<close> of a flat dictionary\<close>

text \<open>
  Python's encoder with its default options, for a dictionary with scalar values: the pairs in the order of the dictionary, between braces, separated by a comma and
  a space, each key and value separated by a colon and a space.
\<close>

definition hex_digit :: "nat \<Rightarrow> char" where
  "hex_digit n = (if n < 10 then char_of (48 + n) else char_of (87 + n))"

text \<open>
  The encoder's string escapes with \<^verbatim>\<open>ensure_ascii\<close> (the default): the quote, the
  backslash and the five named control characters have two-character escapes, the
  printable ASCII characters stand for themselves, and every other character of the
  8-bit range is written \<^verbatim>\<open>\u00XX\<close> in lower-case hexadecimal.
\<close>

definition json_escape_char :: "char \<Rightarrow> string" where
  "json_escape_char c =
     (if c = CHR 0x22 then [CHR 0x5C, CHR 0x22]
      else if c = CHR 0x5C then [CHR 0x5C, CHR 0x5C]
      else if c = CHR 0x0A then [CHR 0x5C, CHR ''n'']
      else if c = CHR 0x0D then [CHR 0x5C, CHR ''r'']
      else if c = CHR 0x09 then [CHR 0x5C, CHR ''t'']
      else if c = CHR 0x08 then [CHR 0x5C, CHR ''b'']
      else if c = CHR 0x0C then [CHR 0x5C, CHR ''f'']
      else if 32 \<le> (of_char c :: nat) \<and> (of_char c :: nat) \<le> 126 then [c]
      else [CHR 0x5C, CHR ''u'', CHR ''0'', CHR ''0'',
            hex_digit ((of_char c :: nat) div 16), hex_digit ((of_char c :: nat) mod 16)])"

definition json_string :: "string \<Rightarrow> string" where
  "json_string s = CHR 0x22 # concat (map json_escape_char s) @ [CHR 0x22]"

fun json_value :: "pyval \<Rightarrow> string" where
  "json_value (PyStr s) = json_string s"
| "json_value (PyInt i) = int_str i"
| "json_value (PyFloat r) =
     (if r = ''nan'' then ''NaN''
      else if r = ''inf'' then ''Infinity''
      else if r = ''-inf'' then ''-Infinity''
      else r)"
| "json_value (PyBool b) = (if b then ''true'' else ''false'')"
| "json_value PyNone = ''null''"

text \<open>A key is written as a string: a string key as it is, an integer key as its decimal
  digits.\<close>

fun json_key :: "pykey \<Rightarrow> string" where
  "json_key (KeyStr s) = s"
| "json_key (KeyInt i) = int_str i"

definition json_item :: "pykey \<times> pyval \<Rightarrow> string" where
  "json_item kv = json_string (json_key (fst kv)) @ '': '' @ json_value (snd kv)"

fun json_items :: "(pykey \<times> pyval) list \<Rightarrow> string" where
  "json_items [] = []"
| "json_items [kv] = json_item kv"
| "json_items (kv # kvs) = json_item kv @ '', '' @ json_items kvs"

text \<open>\<^verbatim>\<open>json.dumps(d)\<close> with the default separators.\<close>

definition json_dumps :: "(pykey \<times> pyval) list \<Rightarrow> string" where
  "json_dumps d = ''{'' @ json_items d @ ''}''"

subsection \<open>\<^verbatim>\<open>json.load\<close> of a flat dictionary\<close>

text \<open>
  The decoder, for documents that are one object whose values are scalars; any other
  document is outside this model and gives \<open>None\<close>, as does a document the decoder
  rejects. A scanner returns what it read and the rest of the input.
\<close>

definition is_ws :: "char \<Rightarrow> bool" where
  "is_ws c \<longleftrightarrow> c = CHR '' '' \<or> c = CHR 0x09 \<or> c = CHR 0x0A \<or> c = CHR 0x0D"

definition skip_ws :: "string \<Rightarrow> string" where
  "skip_ws cs = dropWhile is_ws cs"

definition is_digit :: "char \<Rightarrow> bool" where
  "is_digit c \<longleftrightarrow> 48 \<le> (of_char c :: nat) \<and> (of_char c :: nat) \<le> 57"

definition digit_val :: "char \<Rightarrow> nat" where
  "digit_val c = of_char c - 48"

definition nat_of_digits :: "string \<Rightarrow> nat" where
  "nat_of_digits ds = foldl (\<lambda>n c. 10 * n + digit_val c) 0 ds"

text \<open>
  String escapes: the table of two-character escapes, and \<^verbatim>\<open>\uXXXX\<close> with four
  hexadecimal digits. A \<open>char\<close> is one of the first 256 code points, so an escape of a higher
  code point is outside this model (\<open>None\<close>).
\<close>

definition hex_val :: "char \<Rightarrow> nat option" where
  "hex_val c =
     (if 48 \<le> (of_char c :: nat) \<and> (of_char c :: nat) \<le> 57 then Some (of_char c - 48)
      else if 97 \<le> (of_char c :: nat) \<and> (of_char c :: nat) \<le> 102 then Some (of_char c - 87)
      else if 65 \<le> (of_char c :: nat) \<and> (of_char c :: nat) \<le> 70 then Some (of_char c - 55)
      else None)"

definition unescape :: "char \<Rightarrow> char option" where
  "unescape e =
     (if e = CHR 0x22 then Some (CHR 0x22)
      else if e = CHR 0x5C then Some (CHR 0x5C)
      else if e = CHR ''/'' then Some (CHR ''/'')
      else if e = CHR ''b'' then Some (CHR 0x08)
      else if e = CHR ''f'' then Some (CHR 0x0C)
      else if e = CHR ''n'' then Some (CHR 0x0A)
      else if e = CHR ''r'' then Some (CHR 0x0D)
      else if e = CHR ''t'' then Some (CHR 0x09)
      else None)"

definition unicode_escape :: "char \<Rightarrow> char \<Rightarrow> char \<Rightarrow> char \<Rightarrow> char option" where
  "unicode_escape a b c d =
     (case (hex_val a, hex_val b, hex_val c, hex_val d) of
        (Some h3, Some h2, Some h1, Some h0) \<Rightarrow>
          (if h3 = 0 \<and> h2 = 0 then Some (char_of (16 * h1 + h0)) else None)
      | _ \<Rightarrow> None)"

definition cons_string :: "char \<Rightarrow> (string \<times> string) option \<Rightarrow> (string \<times> string) option" where
  "cons_string c r = (case r of None \<Rightarrow> None | Some (s, rest) \<Rightarrow> Some (c # s, rest))"

text \<open>The characters of a string after its opening quote, up to the closing quote. A raw
  control character is an error (the decoder is strict).\<close>

fun scan_string :: "string \<Rightarrow> (string \<times> string) option" where
  "scan_string [] = None"
| "scan_string (c # cs) =
     (if c = CHR 0x22 then Some ([], cs)
      else if c = CHR 0x5C then
        (case cs of
           [] \<Rightarrow> None
         | e # cs1 \<Rightarrow>
             (if e = CHR ''u'' then
                (case cs1 of
                   a # b # c # d # cs2 \<Rightarrow>
                     (case unicode_escape a b c d of
                        None \<Rightarrow> None
                      | Some x \<Rightarrow> cons_string x (scan_string cs2))
                 | _ \<Rightarrow> None)
              else
                (case unescape e of
                   None \<Rightarrow> None
                 | Some x \<Rightarrow> cons_string x (scan_string cs1))))
      else if (of_char c :: nat) < 32 then None
      else cons_string c (scan_string cs))"

text \<open>
  A number is the longest match of the decoder's pattern: an optional minus sign, an integer
  part without leading zeros, an optional fraction, an optional exponent. It is an integer
  when it has neither fraction nor exponent, and otherwise the float that Python's
  \<^verbatim>\<open>float(text)\<close> gives. Floating-point arithmetic is not modelled: the decoder takes as
  a parameter the function \<open>rd\<close> from the text of a number to the \<^verbatim>\<open>repr\<close> of the float
  it denotes (for Python, \<^verbatim>\<open>1.50\<close> and \<^verbatim>\<open>15e-1\<close> give \<^verbatim>\<open>1.5\<close>).
\<close>

definition scan_int_part :: "string \<Rightarrow> (string \<times> string) option" where
  "scan_int_part cs =
     (case cs of
        [] \<Rightarrow> None
      | d # r \<Rightarrow>
          (if d = CHR ''0'' then Some (''0'', r)
           else if is_digit d then Some (takeWhile is_digit cs, dropWhile is_digit cs)
           else None))"

definition scan_frac :: "string \<Rightarrow> string \<times> string" where
  "scan_frac cs =
     (case cs of
        p # d # r \<Rightarrow>
          (if p = CHR ''.'' \<and> is_digit d
           then (p # takeWhile is_digit (d # r), dropWhile is_digit (d # r))
           else ([], cs))
      | _ \<Rightarrow> ([], cs))"

definition scan_exp :: "string \<Rightarrow> string \<times> string" where
  "scan_exp cs =
     (case cs of
        e # s # r \<Rightarrow>
          (if e = CHR ''e'' \<or> e = CHR ''E'' then
             (if is_digit s then (e # takeWhile is_digit (s # r), dropWhile is_digit (s # r))
              else if s = CHR ''+'' \<or> s = CHR ''-'' then
                (case r of
                   d # r1 \<Rightarrow>
                     (if is_digit d
                      then (e # s # takeWhile is_digit r, dropWhile is_digit r)
                      else ([], cs))
                 | [] \<Rightarrow> ([], cs))
              else ([], cs))
           else ([], cs))
      | _ \<Rightarrow> ([], cs))"

definition scan_number :: "(string \<Rightarrow> string) \<Rightarrow> string \<Rightarrow> (pyval \<times> string) option" where
  "scan_number rd cs =
     (let (sign, r0) =
            (case cs of [] \<Rightarrow> ([], cs) | c # r \<Rightarrow> if c = CHR ''-'' then ([c], r) else ([], cs))
      in case scan_int_part r0 of
           None \<Rightarrow> None
         | Some (ip, r1) \<Rightarrow>
             (let (fr, r2) = scan_frac r1; (ex, r3) = scan_exp r2
              in if fr = [] \<and> ex = []
                 then Some (PyInt (if sign = [] then int (nat_of_digits ip)
                                   else - int (nat_of_digits ip)), r3)
                 else Some (PyFloat (rd (sign @ ip @ fr @ ex)), r3)))"

text \<open>A value: a string, \<^verbatim>\<open>null\<close>, \<^verbatim>\<open>true\<close>, \<^verbatim>\<open>false\<close>, a number, or one of
  the three names of the floats that are not numbers of JSON.\<close>

definition literal :: "string \<Rightarrow> string \<Rightarrow> bool" where
  "literal l cs \<longleftrightarrow> take (length l) cs = l"

definition scan_value :: "(string \<Rightarrow> string) \<Rightarrow> string \<Rightarrow> (pyval \<times> string) option" where
  "scan_value rd cs =
     (case cs of
        [] \<Rightarrow> None
      | c # r \<Rightarrow>
          (if c = CHR 0x22 then
             (case scan_string r of None \<Rightarrow> None | Some (s, rest) \<Rightarrow> Some (PyStr s, rest))
           else if c = CHR ''{'' \<or> c = CHR ''['' then None
           else if literal ''null'' cs then Some (PyNone, drop 4 cs)
           else if literal ''true'' cs then Some (PyBool True, drop 4 cs)
           else if literal ''false'' cs then Some (PyBool False, drop 5 cs)
           else (case scan_number rd cs of
                   Some v \<Rightarrow> Some v
                 | None \<Rightarrow>
                     (if literal ''NaN'' cs then Some (PyFloat ''nan'', drop 3 cs)
                      else if literal ''Infinity'' cs then Some (PyFloat ''inf'', drop 8 cs)
                      else if literal ''-Infinity'' cs then Some (PyFloat ''-inf'', drop 9 cs)
                      else None))))"

text \<open>The members of an object after its opening brace, the first key's quote next: pairs
  of a key and a value separated by commas, up to the closing brace.\<close>

definition expect :: "char \<Rightarrow> string \<Rightarrow> string option" where
  "expect c cs = (case cs of [] \<Rightarrow> None | d # r \<Rightarrow> if d = c then Some r else None)"

function scan_members ::
  "(string \<Rightarrow> string) \<Rightarrow> string \<Rightarrow> ((pykey \<times> pyval) list \<times> string) option" where
  "scan_members rd cs =
     (case expect (CHR 0x22) cs of
        None \<Rightarrow> None
      | Some r \<Rightarrow>
     (case scan_string r of
        None \<Rightarrow> None
      | Some (k, r1) \<Rightarrow>
     (case expect (CHR '':'') (skip_ws r1) of
        None \<Rightarrow> None
      | Some r2 \<Rightarrow>
     (case scan_value rd (skip_ws r2) of
        None \<Rightarrow> None
      | Some (v, r3) \<Rightarrow>
     (case skip_ws r3 of
        [] \<Rightarrow> None
      | d # r4 \<Rightarrow>
          (if d = CHR ''}'' then Some ([(KeyStr k, v)], r4)
           else if d = CHR '','' then
             (case scan_members rd (skip_ws r4) of
                None \<Rightarrow> None
              | Some (kvs, r5) \<Rightarrow> Some ((KeyStr k, v) # kvs, r5))
           else None))))))"
  by pat_completeness auto
termination
proof -
  have str: "scan_string r = Some (k, r1) \<Longrightarrow> length r1 < length r" for r k r1
  proof (induction r arbitrary: k rule: scan_string.induct)
    case 1
    then show ?case by simp
  next
    case (2 c cs)
    then show ?case
      by (fastforce simp: cons_string_def split: if_splits list.splits option.splits)
  qed
  have ex: "expect c cs = Some r \<Longrightarrow> length r < length cs" for c cs r
    by (auto simp: expect_def split: list.splits if_splits)
  have ws: "length (skip_ws cs) \<le> length cs" for cs
    by (simp add: skip_ws_def length_dropWhile_le)
  have dw: "length (dropWhile is_digit cs) \<le> length cs" for cs
    by (rule length_dropWhile_le)
  have ip: "scan_int_part cs = Some (a, r) \<Longrightarrow> length r \<le> length cs" for cs a r
    using dw [of cs] by (auto simp: scan_int_part_def split: list.splits if_splits)
  have fr: "scan_frac cs = (a, r) \<Longrightarrow> length r \<le> length cs" for cs a r
    by (auto simp: scan_frac_def le_SucI length_dropWhile_le split: list.splits if_splits)
  have xp: "scan_exp cs = (a, r) \<Longrightarrow> length r \<le> length cs" for cs a r
    by (auto simp: scan_exp_def le_SucI length_dropWhile_le split: list.splits if_splits)
  have num: "scan_number rd cs = Some (v, r) \<Longrightarrow> length r \<le> length cs" for rd cs v r
  proof -
    assume a: "scan_number rd cs = Some (v, r)"
    obtain sg r0 where s: "(case cs of [] \<Rightarrow> ([], cs)
         | c # r \<Rightarrow> if c = CHR ''-'' then ([c], r) else ([], cs)) = (sg, r0)"
      by (cases "(case cs of [] \<Rightarrow> ([], cs)
         | c # r \<Rightarrow> if c = CHR ''-'' then ([c], r) else ([], cs))")
    then have l0: "length r0 \<le> length cs"
      by (auto split: list.splits if_splits)
    from a s obtain i r1 where i: "scan_int_part r0 = Some (i, r1)"
      by (auto simp: scan_number_def split: option.splits)
    obtain f r2 where f: "scan_frac r1 = (f, r2)"
      by (cases "scan_frac r1")
    obtain e r3 where e: "scan_exp r2 = (e, r3)"
      by (cases "scan_exp r2")
    from a s i f e have "r = r3"
      by (auto simp: scan_number_def split: if_splits)
    with l0 ip [OF i] fr [OF f] xp [OF e] show ?thesis
      by simp
  qed
  have val: "scan_value rd cs = Some (v, r) \<Longrightarrow> length r \<le> length cs" for rd cs v r
    using num [of rd cs v r] str
    by (fastforce simp: scan_value_def split: list.splits if_splits option.splits)
  show ?thesis
  proof (relation "measure (\<lambda>(rd, cs). length cs)")
    show "wf (measure (\<lambda>(rd, cs). length cs))"
      by simp
  next
    fix rd cs r kr k r1 r2 vr v r3 d r4
    assume "expect (CHR 0x22) cs = Some r" "scan_string r = Some kr" "(k, r1) = kr"
      "expect (CHR '':'') (skip_ws r1) = Some r2" "scan_value rd (skip_ws r2) = Some vr"
      "(v, r3) = vr" "skip_ws r3 = d # r4"
    then have "length r < length cs" "length r1 < length r" "length r2 < length (skip_ws r1)"
      "length r3 \<le> length (skip_ws r2)" "length r4 < length (skip_ws r3)"
      using ex [of "CHR 0x22" cs r] str [of r k r1] ex [of "CHR '':''" "skip_ws r1" r2]
        val [of rd "skip_ws r2" v r3]
      by auto
    with ws [of r1] ws [of r2] ws [of r3] ws [of r4]
    show "((rd, skip_ws r4), (rd, cs)) \<in> measure (\<lambda>(rd, cs). length cs)"
      by simp
  qed
qed

declare scan_members.simps [simp del]

text \<open>\<^verbatim>\<open>json.loads(doc)\<close>: one object and nothing after it; the pairs read make the
  dictionary, whose keys are strings.\<close>

definition json_loads :: "(string \<Rightarrow> string) \<Rightarrow> string \<Rightarrow> (pykey \<times> pyval) list option" where
  "json_loads rd doc =
     (case expect (CHR ''{'') (skip_ws doc) of
        None \<Rightarrow> None
      | Some r \<Rightarrow>
          (case expect (CHR ''}'') (skip_ws r) of
             Some r1 \<Rightarrow> if skip_ws r1 = [] then Some [] else None
           | None \<Rightarrow>
               (case scan_members rd (skip_ws r) of
                  None \<Rightarrow> None
                | Some (kvs, r1) \<Rightarrow> if skip_ws r1 = [] then Some (py_dict kvs) else None)))"

text \<open>
  The \<^verbatim>\<open>repr\<close> of a finite float: a number with a fraction or an exponent whose text
  reads back as the float it is the \<^verbatim>\<open>repr\<close> of. A scalar is a value of a Python float
  when it is not a float, or is a finite float given by its \<^verbatim>\<open>repr\<close>, or an infinity.
  (Not-a-number is left out: it is written and read back, but it is equal to nothing,
  itself included.)
\<close>

definition float_repr :: "(string \<Rightarrow> string) \<Rightarrow> string \<Rightarrow> bool" where
  "float_repr rd r \<longleftrightarrow> scan_number rd r = Some (PyFloat r, [])"

fun json_scalar :: "(string \<Rightarrow> string) \<Rightarrow> pyval \<Rightarrow> bool" where
  "json_scalar rd (PyFloat r) = (float_repr rd r \<or> r = ''inf'' \<or> r = ''-inf'')"
| "json_scalar rd v = True"

section \<open>Configuration\<close>

text \<open>
  The configuration document that Hydra passes to \<^verbatim>\<open>go\<close>: the fields that main.py
  reads, by section. The fields of \<^verbatim>\<open>main\<close> are used as strings (environment values,
  \<^verbatim>\<open>split\<close>, an f-string); the others are scalars of any type, and
  \<^verbatim>\<open>modeling.random_forest\<close> is a mapping from keys to scalars, in the order of the
  document.
\<close>

record main_section =
  project_name :: string
  experiment_name :: string
  steps :: string
  components_repository :: string

record etl_section =
  sample :: pyval
  min_price :: pyval
  max_price :: pyval

record data_check_section =
  kl_threshold :: pyval

record modeling_section =
  test_size :: pyval
  random_seed :: pyval
  stratify_by :: pyval
  val_size :: pyval
  max_tfidf_features :: pyval
  random_forest :: "(pykey \<times> pyval) list"

record config =
  main :: main_section
  etl :: etl_section
  data_check :: data_check_section
  modeling :: modeling_section

section \<open>The world of one invocation\<close>

type_synonym path = "string list"

text \<open>A path is the list of its components; its string form starts with the root.\<close>

definition path_str :: "path \<Rightarrow> string" where
  "path_str p = (if p = [] then ''/'' else concat (map (\<lambda>c. CHR ''/'' # c) p))"

text \<open>One call of \<^verbatim>\<open>mlflow.run\<close>, with the name of the enclosing
  \<^verbatim>\<open>mlflow.start_run(run_name=...)\<close> when there is one.\<close>

record call =
  run_name :: "string option"
  uri :: string
  entry_point :: string
  version :: "string option"
  env_manager :: string
  parameters :: "(string \<times> pyval) list"

text \<open>The file system: the working directory, the directories and the files with their
  contents.\<close>

record filesystem =
  cwd :: path
  dirs :: "path \<Rightarrow> bool"
  files :: "path \<Rightarrow> string option"

text \<open>
  An entry of the history of step invocations: the block of \<^verbatim>\<open>go\<close> that made the
  call, the call, the file system as it was at the call, and whether the call returned
  (\<open>True\<close>) or raised.
\<close>

record entry =
  step :: string
  the_call :: call
  fs_at :: filesystem
  outcome :: bool

text \<open>
  The world: the file system, the directory the program was started in (Hydra's
  \<^verbatim>\<open>get_original_cwd()\<close>), the process environment, the history of step
  invocations, and the state of everything the steps themselves act on (artifact store,
  tracking backend), of which the driver knows nothing.
\<close>

record 'x world =
  fsys :: filesystem
  original_cwd :: path
  environ :: "string \<Rightarrow> string option"
  history :: "entry list"
  backend :: 'x

text \<open>What a step does when it is run: whether it succeeds, and the new state of the
  backend. It is a parameter of the driver.\<close>

type_synonym 'x runner = "call \<Rightarrow> 'x \<Rightarrow> bool \<times> 'x"

datatype error = ExecutionException call

type_synonym 'x block = "'x world \<Rightarrow> (error + unit) \<times> 'x world"

section \<open>The driver\<close>

text \<open>The list \<^verbatim>\<open>_steps\<close> (main.py, lines 9 to 17).\<close>

definition default_steps :: "string list" where
  "default_steps =
     [''download'', ''basic_cleaning'', ''data_check'', ''data_split'', ''train_random_forest'']"

text \<open>The steps that \<^verbatim>\<open>go\<close> has a block for, in the order of the blocks: the default
  steps, then the step that the list leaves out.\<close>

definition registry :: "string list" where
  "registry = default_steps @ [''test_regression_model'']"

text \<open>Line 29.\<close>

definition active_steps :: "config \<Rightarrow> string list" where
  "active_steps cfg =
     (if steps (main cfg) \<noteq> ''all'' then split_comma (steps (main cfg)) else default_steps)"

text \<open>\<^verbatim>\<open>mlflow.run\<close>: the step runs, the history records it, and a failed run raises.\<close>

definition mlflow_run :: "'x runner \<Rightarrow> string \<Rightarrow> call \<Rightarrow> 'x block" where
  "mlflow_run run name c w =
     (case run c (backend w) of
        (ok, x) \<Rightarrow>
          (if ok then Inr () else Inl (ExecutionException c),
           w\<lparr>history := history w @
                [\<lparr>step = name, the_call = c, fs_at = fsys w, outcome = ok\<rparr>],
             backend := x\<rparr>))"

text \<open>Sequencing of statements: an exception skips what follows.\<close>

definition seq :: "'x block \<Rightarrow> 'x block \<Rightarrow> 'x block" where
  "seq f g w = (case f w of (Inl e, w') \<Rightarrow> (Inl e, w') | (Inr u, w') \<Rightarrow> g w')"

definition skip :: "'x block" where
  "skip w = (Inr (), w)"

text \<open>Lines 35 to 47.\<close>

definition download_block :: "'x runner \<Rightarrow> config \<Rightarrow> string list \<Rightarrow> 'x block" where
  "download_block run cfg active =
     (if ''download'' \<in> set active then
        mlflow_run run ''download''
          \<lparr>run_name = None,
           uri = components_repository (main cfg) @ ''/get_data'',
           entry_point = ''main'',
           version = Some ''main'',
           env_manager = ''conda'',
           parameters =
             [(''sample'', sample (etl cfg)),
              (''artifact_name'', PyStr ''sample.csv''),
              (''artifact_type'', PyStr ''raw_data''),
              (''artifact_description'', PyStr ''Raw file as downloaded'')]\<rparr>
      else skip)"

text \<open>Lines 50 to 64.\<close>

definition basic_cleaning_block :: "'x runner \<Rightarrow> config \<Rightarrow> string list \<Rightarrow> 'x block" where
  "basic_cleaning_block run cfg active w =
     (if ''basic_cleaning'' \<in> set active then
        mlflow_run run ''basic_cleaning''
          \<lparr>run_name = Some ''basic_cleaning'',
           uri = path_str (original_cwd w @ [''src'', ''basic_cleaning'']),
           entry_point = ''main'',
           version = None,
           env_manager = ''local'',
           parameters =
             [(''input_artifact'', PyStr ''sample.csv:latest''),
              (''output_artifact'', PyStr ''clean_sample.csv''),
              (''output_type'', PyStr ''clean_data''),
              (''output_description'', PyStr ''Data after basic cleaning''),
              (''min_price'', min_price (etl cfg)),
              (''max_price'', max_price (etl cfg))]\<rparr> w
      else skip w)"

text \<open>Lines 67 to 80.\<close>

definition data_check_block :: "'x runner \<Rightarrow> config \<Rightarrow> string list \<Rightarrow> 'x block" where
  "data_check_block run cfg active w =
     (if ''data_check'' \<in> set active then
        mlflow_run run ''data_check''
          \<lparr>run_name = Some ''data_check'',
           uri = path_str (original_cwd w @ [''src'', ''data_check'']),
           entry_point = ''main'',
           version = None,
           env_manager = ''local'',
           parameters =
             [(''csv'', PyStr ''clean_sample.csv:latest''),
              (''ref'', PyStr ''clean_sample.csv:reference''),
              (''kl_threshold'', kl_threshold (data_check cfg)),
              (''min_price'', min_price (etl cfg)),
              (''max_price'', max_price (etl cfg))]\<rparr> w
      else skip w)"

text \<open>Lines 83 to 97.\<close>

definition data_split_block :: "'x runner \<Rightarrow> config \<Rightarrow> string list \<Rightarrow> 'x block" where
  "data_split_block run cfg active =
     (if ''data_split'' \<in> set active then
        mlflow_run run ''data_split''
          \<lparr>run_name = Some ''data_split'',
           uri = components_repository (main cfg) @ ''/train_val_test_split'',
           entry_point = ''main'',
           version = Some ''main'',
           env_manager = ''conda'',
           parameters =
             [(''input'', PyStr ''clean_sample.csv:latest''),
              (''test_size'', PyStr (py_str (test_size (modeling cfg)))),
              (''random_seed'', PyStr (py_str (random_seed (modeling cfg)))),
              (''stratify_by'', stratify_by (modeling cfg))]\<rparr>
      else skip)"

text \<open>\<^verbatim>\<open>os.path.abspath("rf_config.json")\<close> (line 102): the name, in the working
  directory.\<close>

definition rf_config_path :: "'x world \<Rightarrow> path" where
  "rf_config_path w = cwd (fsys w) @ [''rf_config.json'']"

text \<open>Lines 103 and 104: the file is created or truncated, and the dictionary written.\<close>

definition write_rf_config :: "config \<Rightarrow> 'x world \<Rightarrow> 'x world" where
  "write_rf_config cfg w =
     w\<lparr>fsys := (fsys w)\<lparr>files := (files (fsys w))
          (rf_config_path w \<mapsto> json_dumps (py_dict (random_forest (modeling cfg))))\<rparr>\<rparr>"

text \<open>Lines 100 to 121.\<close>

definition train_random_forest_block :: "'x runner \<Rightarrow> config \<Rightarrow> string list \<Rightarrow> 'x block" where
  "train_random_forest_block run cfg active w =
     (if ''train_random_forest'' \<in> set active then
        mlflow_run run ''train_random_forest''
          \<lparr>run_name = Some ''train_random_forest'',
           uri = path_str (original_cwd w @ [''src'', ''train_random_forest'']),
           entry_point = ''main'',
           version = None,
           env_manager = ''local'',
           parameters =
             [(''trainval_artifact'', PyStr ''trainval_data.csv:latest''),
              (''val_size'', PyStr (py_str (val_size (modeling cfg)))),
              (''random_seed'', PyStr (py_str (random_seed (modeling cfg)))),
              (''stratify_by'', stratify_by (modeling cfg)),
              (''rf_config'', PyStr (path_str (rf_config_path w))),
              (''max_tfidf_features'', PyStr (py_str (max_tfidf_features (modeling cfg)))),
              (''output_artifact'', PyStr ''random_forest_export'')]\<rparr>
          (write_rf_config cfg w)
      else skip w)"

text \<open>Lines 124 to 135.\<close>

definition test_regression_model_block :: "'x runner \<Rightarrow> config \<Rightarrow> string list \<Rightarrow> 'x block" where
  "test_regression_model_block run cfg active =
     (if ''test_regression_model'' \<in> set active then
        mlflow_run run ''test_regression_model''
          \<lparr>run_name = Some ''test_regression_model'',
           uri = components_repository (main cfg) @ ''/test_regression_model'',
           entry_point = ''main'',
           version = Some ''main'',
           env_manager = ''conda'',
           parameters =
             [(''mlflow_model'', PyStr ''random_forest_export:prod''),
              (''test_dataset'', PyStr ''test_data.csv:latest'')]\<rparr>
      else skip)"

text \<open>The body of the \<^verbatim>\<open>with\<close> statement, lines 34 to 135.\<close>

definition body :: "'x runner \<Rightarrow> config \<Rightarrow> string list \<Rightarrow> 'x block" where
  "body run cfg active =
     seq (download_block run cfg active)
    (seq (basic_cleaning_block run cfg active)
    (seq (data_check_block run cfg active)
    (seq (data_split_block run cfg active)
    (seq (train_random_forest_block run cfg active)
         (test_regression_model_block run cfg active)))))"

text \<open>
  \<^verbatim>\<open>tempfile.TemporaryDirectory()\<close>: entering creates the directory, under the fresh
  name \<open>tmp_dir\<close> that the operating system chooses; leaving, by return or by exception,
  removes it and everything below it.
\<close>

definition mkdtemp :: "path \<Rightarrow> 'x world \<Rightarrow> 'x world" where
  "mkdtemp tmp_dir w = w\<lparr>fsys := (fsys w)\<lparr>dirs := (dirs (fsys w))(tmp_dir := True)\<rparr>\<rparr>"

definition cleanup :: "path \<Rightarrow> 'x world \<Rightarrow> 'x world" where
  "cleanup tmp_dir w =
     w\<lparr>fsys := (fsys w)
          \<lparr>dirs := (\<lambda>p. \<not> prefix tmp_dir p \<and> dirs (fsys w) p),
           files := (\<lambda>p. if prefix tmp_dir p then None else files (fsys w) p)\<rparr>\<rparr>"

definition with_temporary_directory :: "path \<Rightarrow> 'x block \<Rightarrow> 'x block" where
  "with_temporary_directory tmp_dir f w =
     (case f (mkdtemp tmp_dir w) of (r, w') \<Rightarrow> (r, cleanup tmp_dir w'))"

text \<open>Lines 24 and 25.\<close>

definition set_environ :: "config \<Rightarrow> 'x world \<Rightarrow> 'x world" where
  "set_environ cfg w =
     w\<lparr>environ := (environ w)
          (''WANDB_PROJECT'' \<mapsto> project_name (main cfg),
           ''WANDB_RUN_GROUP'' \<mapsto> experiment_name (main cfg))\<rparr>"

text \<open>The function \<^verbatim>\<open>go\<close>, lines 21 to 135.\<close>

definition go :: "'x runner \<Rightarrow> config \<Rightarrow> path \<Rightarrow> 'x block" where
  "go run cfg tmp_dir w =
     with_temporary_directory tmp_dir (body run cfg (active_steps cfg)) (set_environ cfg w)"

text \<open>What one invocation adds to the history, and the steps it ran, in order.\<close>

definition invocations :: "'x runner \<Rightarrow> config \<Rightarrow> path \<Rightarrow> 'x world \<Rightarrow> entry list" where
  "invocations run cfg tmp_dir w =
     drop (length (history w)) (history (snd (go run cfg tmp_dir w)))"

definition steps_run :: "'x runner \<Rightarrow> config \<Rightarrow> path \<Rightarrow> 'x world \<Rightarrow> string list" where
  "steps_run run cfg tmp_dir w = map step (invocations run cfg tmp_dir w)"

section \<open>Reasoning about the driver\<close>

text \<open>
  A block \<open>b\<close> runs the steps \<open>ns\<close>: from a world that satisfies \<open>I\<close> it keeps \<open>I\<close> and
  extends the history by entries that satisfy \<open>Q\<close>, all successful except perhaps the last;
  when it returns, the entries are those of \<open>ns\<close>, in order; when it raises, they are a
  beginning of \<open>ns\<close>, the last entry is the failed call and the error is that call's.
\<close>

definition runs :: "('x world \<Rightarrow> bool) \<Rightarrow> (entry \<Rightarrow> bool) \<Rightarrow> string list \<Rightarrow> 'x block \<Rightarrow> bool" where
  "runs I Q ns b \<longleftrightarrow>
     (\<forall>w. I w \<longrightarrow>
        I (snd (b w)) \<and>
        (\<exists>es. history (snd (b w)) = history w @ es \<and>
              (\<forall>e \<in> set es. Q e) \<and>
              (\<forall>e \<in> set (butlast es). outcome e) \<and>
              (case fst (b w) of
                 Inr u \<Rightarrow> map step es = ns \<and> (\<forall>e \<in> set es. outcome e)
               | Inl x \<Rightarrow> es \<noteq> [] \<and> prefix (map step es) ns \<and> \<not> outcome (last es) \<and>
                          x = ExecutionException (the_call (last es)))))"

text \<open>Inside the \<^verbatim>\<open>with\<close> statement the temporary directory exists and the working
  directory is the one the invocation started in.\<close>

definition body_inv :: "path \<Rightarrow> path \<Rightarrow> 'x world \<Rightarrow> bool" where
  "body_inv tmp_dir d w \<longleftrightarrow> dirs (fsys w) tmp_dir \<and> cwd (fsys w) = d"

text \<open>What holds at every step invocation of the body.\<close>

definition entry_ok :: "config \<Rightarrow> string list \<Rightarrow> path \<Rightarrow> path \<Rightarrow> entry \<Rightarrow> bool" where
  "entry_ok cfg active tmp_dir d e \<longleftrightarrow>
     dirs (fs_at e) tmp_dir \<and> cwd (fs_at e) = d \<and> step e \<in> set active \<and>
     (step e = ''train_random_forest'' \<longrightarrow>
        files (fs_at e) (d @ [''rf_config.json'']) =
          Some (json_dumps (py_dict (random_forest (modeling cfg)))) \<and>
        map_of (parameters (the_call e)) ''rf_config'' =
          Some (PyStr (path_str (d @ [''rf_config.json'']))))"

section \<open>Concrete inputs\<close>

text \<open>A configuration with the fields of a usual \<^verbatim>\<open>config.yaml\<close>, a world, the name of
  the temporary directory, and two step runners.\<close>

definition example_config :: config where
  "example_config =
     \<lparr>main = \<lparr>project_name = ''nyc_airbnb'', experiment_name = ''development'',
              steps = ''all'',
              components_repository = ''https://github.com/udacity/components''\<rparr>,
      etl = \<lparr>sample = PyStr ''sample1.csv'', min_price = PyInt 10, max_price = PyInt 350\<rparr>,
      data_check = \<lparr>kl_threshold = PyFloat ''0.2''\<rparr>,
      modeling =
        \<lparr>test_size = PyFloat ''0.2'', random_seed = PyInt 42,
         stratify_by = PyStr ''neighbourhood_group'', val_size = PyFloat ''0.2'',
         max_tfidf_features = PyInt 5,
         random_forest =
           [(KeyStr ''n_estimators'', PyInt 100), (KeyStr ''max_depth'', PyInt 15),
            (KeyStr ''n_jobs'', PyInt (- 1)), (KeyStr ''criterion'', PyStr ''squared_error''),
            (KeyStr ''max_features'', PyFloat ''0.5''), (KeyStr ''oob_score'', PyBool True)]\<rparr>\<rparr>"

definition request :: "string \<Rightarrow> config" where
  "request s = example_config\<lparr>main := (main example_config)\<lparr>steps := s\<rparr>\<rparr>"

definition example_world :: "unit world" where
  "example_world =
     \<lparr>fsys = \<lparr>cwd = [''home'', ''user'', ''project'', ''outputs''],
              dirs = (\<lambda>p. prefix p [''home'', ''user'', ''project'', ''outputs''] \<or> p = [''tmp'']),
              files = (\<lambda>p. None)\<rparr>,
      original_cwd = [''home'', ''user'', ''project''],
      environ = (\<lambda>k. None),
      history = [],
      backend = ()\<rparr>"

text \<open>The example with a mapping that has an integer key, as the YAML line
  \<^verbatim>\<open>1: 2\<close> gives, and only the training step requested.\<close>

definition int_key_config :: config where
  "int_key_config =
     (request ''train_random_forest'')
       \<lparr>modeling := (modeling example_config)\<lparr>random_forest := [(KeyInt 1, PyInt 2)]\<rparr>\<rparr>"

text \<open>A reader of floats that agrees with Python on the numbers of the examples.\<close>

definition example_rd :: "string \<Rightarrow> string" where
  "example_rd t = (if t = ''0.50'' \<or> t = ''5e-1'' then ''0.5'' else t)"

definition example_tmp :: path where
  "example_tmp = [''tmp'', ''tmpk3x9qz_a'']"

definition always_ok :: "unit runner" where
  "always_ok c x = (True, x)"

definition failing :: "string \<Rightarrow> unit runner" where
  "failing n c x = (run_name c \<noteq> Some n, x)"

section \<open>The decoder reads what the encoder writes\<close>

text \<open>A string: the decoder reads back what the encoder wrote, character by character.\<close>

lemma hex_val_hex_digit: "n < 16 \<Longrightarrow> hex_val (hex_digit n) = Some n"
  by (auto simp: hex_val_def hex_digit_def of_char_of)

lemma hex_val_zero: "hex_val (CHR ''0'') = Some 0"
  by (simp add: hex_val_def)

lemma unicode_escape_hex:
  "unicode_escape (CHR ''0'') (CHR ''0'') (hex_digit (of_char c div 16)) (hex_digit (of_char c mod 16)) =
     Some c"
proof -
  have "(of_char c :: nat) < 16 * 16"
    by simp
  then have "(of_char c :: nat) div 16 < 16"
    by (rule less_mult_imp_div_less)
  then show ?thesis
    by (simp add: unicode_escape_def hex_val_hex_digit hex_val_zero)
qed

lemma scan_string_escape:
  "scan_string (json_escape_char c @ cs) = cons_string c (scan_string cs)"
proof -
  consider "c = CHR 0x22" | "c = CHR 0x5C" | "c = CHR 0x0A" | "c = CHR 0x0D" | "c = CHR 0x09"
    | "c = CHR 0x08" | "c = CHR 0x0C"
    | "c \<noteq> CHR 0x22" "c \<noteq> CHR 0x5C" "32 \<le> (of_char c :: nat)" "(of_char c :: nat) \<le> 126"
    | "c \<noteq> CHR 0x22" "c \<noteq> CHR 0x5C" "c \<noteq> CHR 0x0A" "c \<noteq> CHR 0x0D" "c \<noteq> CHR 0x09"
      "c \<noteq> CHR 0x08" "c \<noteq> CHR 0x0C" "\<not> (32 \<le> (of_char c :: nat) \<and> (of_char c :: nat) \<le> 126)"
    by blast
  then show ?thesis
  proof cases
    case 8
    then have "json_escape_char c = [c]"
      by (auto simp: json_escape_char_def)
    with 8 show ?thesis
      by simp
  next
    case 9
    then have "json_escape_char c =
        [CHR 0x5C, CHR ''u'', CHR ''0'', CHR ''0'',
         hex_digit ((of_char c :: nat) div 16), hex_digit ((of_char c :: nat) mod 16)]"
      by (simp add: json_escape_char_def)
    then show ?thesis
      by (simp add: unicode_escape_hex)
  qed (simp_all add: json_escape_char_def unescape_def)
qed

lemma scan_string_json:
  "scan_string (concat (map json_escape_char s) @ CHR 0x22 # rest) = Some (s, rest)"
  by (induction s) (simp_all add: scan_string_escape cons_string_def)


text \<open>An integer: its decimal digits, without a leading zero, read back as the integer.\<close>

lemma digit_char: "n < 10 \<Longrightarrow> is_digit (char_of (48 + n)) \<and> digit_val (char_of (48 + n)) = n"
  by (simp add: is_digit_def digit_val_def of_char_of)

lemma char_of_48: "char_of (48 :: nat) = CHR ''0''"
  by (simp add: char_of_def bit_iff_odd)

lemma digit_char_zero: "(n :: nat) < 10 \<Longrightarrow> char_of (48 + n) = CHR ''0'' \<longleftrightarrow> n = 0"
proof
  assume n: "n < 10" and "char_of (48 + n) = CHR ''0''"
  then have "digit_val (char_of (48 + n)) = digit_val (CHR ''0'')"
    by simp
  with n show "n = 0"
    by (simp add: digit_char digit_val_def)
next
  assume "n = 0"
  then show "char_of (48 + n) = CHR ''0''"
    by (simp add: char_of_48)
qed

lemma nat_digits_digits: "list_all is_digit (nat_digits n)"
proof (induction n rule: nat_digits.induct)
  case (1 n)
  then show ?case
    by (subst nat_digits.simps) (simp add: digit_char)
qed

lemma nat_digits_not_Nil: "nat_digits n \<noteq> []"
  by (subst nat_digits.simps) simp

lemma nat_of_digits_snoc: "nat_of_digits (ds @ [c]) = 10 * nat_of_digits ds + digit_val c"
  by (simp add: nat_of_digits_def)

lemma nat_of_digits_nat_digits: "nat_of_digits (nat_digits n) = n"
proof (induction n rule: nat_digits.induct)
  case (1 n)
  show ?case
  proof (cases "n < 10")
    case True
    then show ?thesis
      by (subst nat_digits.simps) (simp add: nat_of_digits_def digit_char)
  next
    case False
    with 1 show ?thesis
      by (subst nat_digits.simps) (simp add: nat_of_digits_snoc digit_char)
  qed
qed

lemma hd_nat_digits: "hd (nat_digits n) = CHR ''0'' \<longleftrightarrow> n = 0"
proof (induction n rule: nat_digits.induct)
  case (1 n)
  show ?case
  proof (cases "n < 10")
    case True
    then show ?thesis
      by (subst nat_digits.simps) (simp add: digit_char_zero)
  next
    case False
    with 1 have "hd (nat_digits (n div 10)) \<noteq> CHR ''0''"
      by simp
    with False show ?thesis
      by (subst nat_digits.simps) (simp add: nat_digits_not_Nil)
  qed
qed

lemma nat_digits_zero: "nat_digits 0 = ''0''"
  by (subst nat_digits.simps) (simp add: char_of_48)

lemma takeWhile_all: "list_all P xs \<Longrightarrow> takeWhile P xs = xs \<and> dropWhile P xs = []"
  by (induction xs) simp_all

lemma scan_int_part_nat_digits: "scan_int_part (nat_digits n) = Some (nat_digits n, [])"
proof (cases "n = 0")
  case True
  then show ?thesis
    by (simp add: nat_digits_zero scan_int_part_def)
next
  case False
  obtain d ds where ds: "nat_digits n = d # ds"
    using nat_digits_not_Nil [of n] by (cases "nat_digits n") auto
  with False hd_nat_digits [of n] have "d \<noteq> CHR ''0''"
    by simp
  moreover from ds nat_digits_digits [of n] have "is_digit d" "list_all is_digit (d # ds)"
    by simp_all
  ultimately show ?thesis
    using takeWhile_all [of is_digit "d # ds"] by (simp add: ds scan_int_part_def)
qed

lemma scan_frac_Nil: "scan_frac [] = ([], [])"
  by (simp add: scan_frac_def)

lemma scan_exp_Nil: "scan_exp [] = ([], [])"
  by (simp add: scan_exp_def)

lemma is_digit_minus: "\<not> is_digit (CHR ''-'')"
  by (simp add: is_digit_def)

lemma scan_number_int_str: "scan_number rd (int_str i) = Some (PyInt i, [])"
proof (cases "i < 0")
  case True
  then show ?thesis
    by (simp add: int_str_def scan_number_def scan_int_part_nat_digits scan_frac_Nil scan_exp_Nil
        nat_of_digits_nat_digits)
next
  case False
  obtain d ds where ds: "nat_digits (nat i) = d # ds"
    using nat_digits_not_Nil [of "nat i"] by (cases "nat_digits (nat i)") auto
  with nat_digits_digits [of "nat i"] have "d \<noteq> CHR ''-''"
    using is_digit_minus by auto
  with False ds scan_int_part_nat_digits [of "nat i"] nat_of_digits_nat_digits [of "nat i"]
  show ?thesis
    by (simp add: int_str_def scan_number_def scan_frac_Nil scan_exp_Nil)
qed


text \<open>A number that is followed by a comma or a closing brace is read as it is read alone.\<close>

lemma sep_chars:
  assumes "d = CHR '','' \<or> d = CHR ''}''"
  shows "\<not> is_digit d" "d \<noteq> CHR ''0''" "d \<noteq> CHR ''.''" "d \<noteq> CHR ''e''" "d \<noteq> CHR ''E''"
    "d \<noteq> CHR ''+''" "d \<noteq> CHR ''-''" "\<not> is_ws d" "d \<noteq> CHR 0x22" "d \<noteq> CHR '':''"
  using assms by (auto simp: is_digit_def is_ws_def)

lemma digits_append:
  "\<not> is_digit d \<Longrightarrow>
     takeWhile is_digit (xs @ d # r) = takeWhile is_digit xs \<and>
     dropWhile is_digit (xs @ d # r) = dropWhile is_digit xs @ d # r"
  by (induction xs) simp_all

lemma scan_int_part_append:
  assumes "d = CHR '','' \<or> d = CHR ''}''"
  shows "scan_int_part (xs @ d # r) =
           map_option (\<lambda>(a, b). (a, b @ d # r)) (scan_int_part xs)"
proof (cases xs)
  case Nil
  then show ?thesis
    using sep_chars [OF assms] by (simp add: scan_int_part_def)
next
  case (Cons x xs')
  then show ?thesis
    using sep_chars(1) [OF assms] digits_append [of d xs' r]
    by (simp add: scan_int_part_def)
qed

lemma scan_frac_append:
  assumes "d = CHR '','' \<or> d = CHR ''}''"
  shows "scan_frac (xs @ d # r) = (fst (scan_frac xs), snd (scan_frac xs) @ d # r)"
proof -
  note nd = sep_chars(1) [OF assms]
  consider "xs = []" | p where "xs = [p]" | p q ys where "xs = p # q # ys"
    by (cases xs; cases "tl xs") auto
  then show ?thesis
  proof cases
    case 1
    then show ?thesis
      using sep_chars [OF assms] by (simp add: scan_frac_def split: list.splits)
  next
    case 2
    then show ?thesis
      using nd by (simp add: scan_frac_def)
  next
    case 3
    then show ?thesis
      using nd digits_append [of d ys r] by (simp add: scan_frac_def)
  qed
qed


lemma scan_exp_append:
  assumes "d = CHR '','' \<or> d = CHR ''}''"
  shows "scan_exp (xs @ d # r) = (fst (scan_exp xs), snd (scan_exp xs) @ d # r)"
proof -
  note nd = sep_chars [OF assms]
  consider "xs = []" | e where "xs = [e]" | e s where "xs = [e, s]"
    | e s t ys where "xs = e # s # t # ys"
    by (cases xs; cases "tl xs"; cases "tl (tl xs)") auto
  then show ?thesis
  proof cases
    case 1
    then show ?thesis
      using nd by (simp add: scan_exp_def split: list.splits)
  next
    case 2
    then show ?thesis
      using nd by (simp add: scan_exp_def)
  next
    case 3
    then show ?thesis
      using nd by (simp add: scan_exp_def)
  next
    case 4
    then show ?thesis
      using nd digits_append [of d ys r] by (simp add: scan_exp_def)
  qed
qed

lemma scan_number_append:
  assumes "d = CHR '','' \<or> d = CHR ''}''" and "scan_number rd xs = Some (v, [])"
  shows "scan_number rd (xs @ d # r) = Some (v, d # r)"
proof -
  let ?sign = "\<lambda>cs. case cs of [] \<Rightarrow> ([], cs) | c # r \<Rightarrow> if c = CHR ''-'' then ([c], r) else ([], cs)"
  obtain sg r0 where s: "?sign xs = (sg, r0)"
    by (cases "?sign xs")
  have s': "?sign (xs @ d # r) = (sg, r0 @ d # r)"
    using s sep_chars(7) [OF assms(1)] by (cases xs) (auto split: if_splits)
  from assms(2) s obtain ip r1 where i: "scan_int_part r0 = Some (ip, r1)"
    by (auto simp: scan_number_def split: option.splits)
  obtain fr r2 where f: "scan_frac r1 = (fr, r2)"
    by (cases "scan_frac r1")
  obtain ex r3 where e: "scan_exp r2 = (ex, r3)"
    by (cases "scan_exp r2")
  from assms(2) s i f e have r3: "r3 = []"
    and v: "v = (if fr = [] \<and> ex = []
                 then PyInt (if sg = [] then int (nat_of_digits ip) else - int (nat_of_digits ip))
                 else PyFloat (rd (sg @ ip @ fr @ ex)))"
    by (auto simp: scan_number_def split: if_splits)
  have i': "scan_int_part (r0 @ d # r) = Some (ip, r1 @ d # r)"
    using i by (simp add: scan_int_part_append [OF assms(1)])
  have f': "scan_frac (r1 @ d # r) = (fr, r2 @ d # r)"
    using f by (simp add: scan_frac_append [OF assms(1)])
  have e': "scan_exp (r2 @ d # r) = (ex, d # r)"
    using e r3 by (simp add: scan_exp_append [OF assms(1)])
  show ?thesis
    unfolding scan_number_def s' using i' f' e' v by simp
qed

lemma scan_number_head:
  assumes "scan_number rd xs = Some (v, r)"
  shows "\<exists>c cs. xs = c # cs \<and> (c = CHR ''-'' \<or> is_digit c)"
proof (cases xs)
  case Nil
  with assms show ?thesis
    by (simp add: scan_number_def scan_int_part_def)
next
  case (Cons c cs)
  with assms show ?thesis
    by (auto simp: scan_number_def scan_int_part_def is_digit_def
        split: if_splits option.splits list.splits)
qed


text \<open>A value, followed by a comma or a closing brace.\<close>

lemma scan_value_number:
  assumes "d = CHR '','' \<or> d = CHR ''}''" and "scan_number rd xs = Some (v, [])"
  shows "scan_value rd (xs @ d # r) = Some (v, d # r)"
proof -
  from scan_number_head [OF assms(2)] obtain c cs where
    xs: "xs = c # cs" and c: "c = CHR ''-'' \<or> is_digit c"
    by blast
  from c have "c \<noteq> CHR 0x22" "c \<noteq> CHR ''{''" "c \<noteq> CHR ''[''" "c \<noteq> CHR ''n''"
    "c \<noteq> CHR ''t''" "c \<noteq> CHR ''f''"
    by (auto simp: is_digit_def)
  then show ?thesis
    using scan_number_append [OF assms, of r]
    by (simp add: scan_value_def xs literal_def)
qed

lemma not_float_repr: "\<not> float_repr rd ''nan''" "\<not> float_repr rd ''inf''" "\<not> float_repr rd ''-inf''"
  by (simp_all add: float_repr_def scan_number_def scan_int_part_def is_digit_def)

lemma scan_value_json:
  assumes "d = CHR '','' \<or> d = CHR ''}''" and "json_scalar rd v"
  shows "scan_value rd (json_value v @ d # r) = Some (v, d # r)"
proof (cases v)
  case (PyStr s)
  then show ?thesis
    by (simp add: scan_value_def json_string_def scan_string_json)
next
  case (PyInt i)
  then show ?thesis
    using scan_value_number [OF assms(1) scan_number_int_str [of rd i], of r] by simp
next
  case (PyFloat x)
  with assms(2) consider "float_repr rd x" | "x = ''inf''" | "x = ''-inf''"
    by auto
  then show ?thesis
  proof cases
    case 1
    then have "x \<noteq> ''nan''" "x \<noteq> ''inf''" "x \<noteq> ''-inf''"
      using not_float_repr by auto
    then have "json_value v = x"
      by (simp add: PyFloat)
    moreover from 1 have "scan_number rd x = Some (v, [])"
      by (simp add: float_repr_def PyFloat)
    ultimately show ?thesis
      using scan_value_number [OF assms(1), of rd x v r] by simp
  next
    case 2
    then show ?thesis
      by (simp add: PyFloat scan_value_def literal_def scan_number_def scan_int_part_def
          is_digit_def)
  next
    case 3
    then show ?thesis
      by (simp add: PyFloat scan_value_def literal_def scan_number_def scan_int_part_def
          is_digit_def)
  qed
next
  case (PyBool b)
  then show ?thesis
    by (simp add: scan_value_def literal_def)
next
  case PyNone
  then show ?thesis
    by (simp add: scan_value_def literal_def)
qed


text \<open>The members of an object.\<close>

lemma json_value_head:
  assumes "json_scalar rd v"
  shows "\<exists>c cs. json_value v = c # cs \<and> \<not> is_ws c"
proof (cases v)
  case (PyStr s)
  then show ?thesis
    by (simp add: json_string_def is_ws_def)
next
  case (PyInt i)
  from scan_number_head [OF scan_number_int_str [of rd i]] PyInt show ?thesis
    by (auto simp: is_ws_def is_digit_def)
next
  case (PyFloat x)
  with assms consider "float_repr rd x" | "x = ''inf''" | "x = ''-inf''"
    by auto
  then show ?thesis
  proof cases
    case 1
    then have "x \<noteq> ''nan''" "x \<noteq> ''inf''" "x \<noteq> ''-inf''"
      using not_float_repr by auto
    moreover from 1 scan_number_head [of rd x "PyFloat x" "[]"]
    have "\<exists>c cs. x = c # cs \<and> (c = CHR ''-'' \<or> is_digit c)"
      by (simp add: float_repr_def)
    ultimately show ?thesis
      by (auto simp: PyFloat is_ws_def is_digit_def)
  qed (simp_all add: PyFloat is_ws_def)
next
  case (PyBool b)
  then show ?thesis
    by (simp add: is_ws_def)
next
  case PyNone
  then show ?thesis
    by (simp add: is_ws_def)
qed

lemma skip_ws_json_value: "json_scalar rd v \<Longrightarrow> skip_ws (json_value v @ r) = json_value v @ r"
  using json_value_head [of rd v] by (auto simp: skip_ws_def)

lemma scan_members_item:
  assumes "d = CHR '','' \<or> d = CHR ''}''" and "json_scalar rd v"
  shows "scan_members rd (json_item (k, v) @ d # r) =
           (if d = CHR ''}'' then Some ([(KeyStr (json_key k), v)], r)
            else case scan_members rd (skip_ws r) of
                   None \<Rightarrow> None
                 | Some (kvs, r5) \<Rightarrow> Some ((KeyStr (json_key k), v) # kvs, r5))"
proof -
  have item: "json_item (k, v) @ d # r =
      CHR 0x22 # concat (map json_escape_char (json_key k)) @
        CHR 0x22 # CHR '':'' # CHR '' '' # json_value v @ d # r"
    by (simp add: json_item_def json_string_def)
  have ws1: "skip_ws (CHR '':'' # CHR '' '' # json_value v @ d # r) =
      CHR '':'' # CHR '' '' # json_value v @ d # r"
    by (simp add: skip_ws_def is_ws_def)
  have ws2: "skip_ws (CHR '' '' # json_value v @ d # r) = json_value v @ d # r"
    using skip_ws_json_value [OF assms(2), of "d # r"] by (simp add: skip_ws_def is_ws_def)
  have ws3: "skip_ws (d # r) = d # r"
    using sep_chars(8) [OF assms(1)] by (simp add: skip_ws_def)
  show ?thesis
    unfolding item
    by (subst scan_members.simps)
       (use assms(1) in \<open>auto simp: expect_def scan_string_json ws1 ws2 ws3
          scan_value_json [OF assms]\<close>)
qed

lemma json_items_head: "kvs \<noteq> [] \<Longrightarrow> \<exists>cs. json_items kvs = CHR 0x22 # cs"
  by (induction kvs rule: json_items.induct) (simp_all add: json_item_def json_string_def)

text \<open>The decoder returns every key as the string that the encoder wrote for it.\<close>

lemma scan_members_items:
  assumes "kvs \<noteq> []" and "list_all (\<lambda>kv. json_scalar rd (snd kv)) kvs"
  shows "scan_members rd (json_items kvs @ CHR ''}'' # r) =
           Some (map (\<lambda>kv. (KeyStr (json_key (fst kv)), snd kv)) kvs, r)"
  using assms
proof (induction kvs rule: json_items.induct)
  case 1
  then show ?case by simp
next
  case (2 kv)
  then show ?case
    using scan_members_item [of "CHR ''}''" rd "snd kv" "fst kv" r] by simp
next
  case (3 kv kv' kvs)
  from json_items_head [of "kv' # kvs"] obtain cs where cs: "json_items (kv' # kvs) = CHR 0x22 # cs"
    by auto
  have ws: "skip_ws (CHR '' '' # json_items (kv' # kvs) @ CHR ''}'' # r) =
      json_items (kv' # kvs) @ CHR ''}'' # r"
    by (simp add: cs skip_ws_def is_ws_def)
  from 3 have ih: "scan_members rd (json_items (kv' # kvs) @ CHR ''}'' # r) =
      Some (map (\<lambda>kv. (KeyStr (json_key (fst kv)), snd kv)) (kv' # kvs), r)"
    by simp
  from 3 have sc: "json_scalar rd (snd kv)"
    by simp
  have "json_items (kv # kv' # kvs) @ CHR ''}'' # r =
      json_item (fst kv, snd kv) @ CHR '','' # CHR '' '' # json_items (kv' # kvs) @ CHR ''}'' # r"
    by simp
  then show ?case
    using scan_members_item [of "CHR '',''" rd "snd kv" "fst kv", OF _ sc] ws ih by simp
qed

text \<open>A list of pairs with distinct keys is the dictionary of its pairs.\<close>

lemma update_fresh: "k \<notin> fst ` set al \<Longrightarrow> AList.update k v al = al @ [(k, v)]"
  by (induction al) auto

lemma foldl_update_distinct:
  "distinct (map fst (acc @ kvs)) \<Longrightarrow>
     foldl (\<lambda>d (k, v). AList.update k v d) acc kvs = acc @ kvs"
proof (induction kvs arbitrary: acc)
  case Nil
  then show ?case by simp
next
  case (Cons kv kvs)
  obtain k v where kv: "kv = (k, v)"
    by (cases kv)
  from Cons.prems have "k \<notin> fst ` set acc"
    by (auto simp: kv)
  then have "AList.update k v acc = acc @ [(k, v)]"
    by (rule update_fresh)
  moreover from Cons.prems have "distinct (map fst ((acc @ [(k, v)]) @ kvs))"
    by (simp add: kv)
  ultimately show ?case
    using Cons.IH [of "acc @ [(k, v)]"] by (simp add: kv)
qed

lemma py_dict_distinct: "distinct (map fst kvs) \<Longrightarrow> py_dict kvs = kvs"
  using foldl_update_distinct [of "[]" kvs] by (simp add: py_dict_def)

text \<open>What decoding the text of a flat dictionary gives: the dictionary of its pairs, each
  key as the string written for it.\<close>

lemma json_loads_dumps_keys:
  assumes "list_all (\<lambda>kv. json_scalar rd (snd kv)) d"
  shows "json_loads rd (json_dumps d) =
           Some (py_dict (map (\<lambda>kv. (KeyStr (json_key (fst kv)), snd kv)) d))"
proof (cases "d = []")
  case True
  then show ?thesis
    by (simp add: json_loads_def json_dumps_def skip_ws_def is_ws_def expect_def py_dict_def)
next
  case False
  from json_items_head [OF False] obtain cs where cs: "json_items d = CHR 0x22 # cs"
    by auto
  have ws: "skip_ws (json_items d @ ''}'') = json_items d @ ''}''"
    by (simp add: cs skip_ws_def is_ws_def)
  have e1: "expect (CHR ''{'') (skip_ws (json_dumps d)) = Some (json_items d @ ''}'')"
    by (simp add: json_dumps_def skip_ws_def is_ws_def expect_def)
  have e2: "expect (CHR ''}'') (json_items d @ ''}'') = None"
    by (simp add: cs expect_def)
  have wsn: "skip_ws [] = []"
    by (simp add: skip_ws_def)
  show ?thesis
    using scan_members_items [OF False assms, of "[]"]
    by (simp add: json_loads_def e1 e2 ws wsn)
qed

lemma str_keys_map:
  "list_all (\<lambda>kv. is_str_key (fst kv)) d \<Longrightarrow>
     map (\<lambda>kv. (KeyStr (json_key (fst kv)), snd kv)) d = d"
proof (induction d)
  case Nil
  then show ?case by simp
next
  case (Cons kv d)
  then show ?case
    by (cases kv; cases "fst kv") simp_all
qed

text \<open>The round trip of a flat dictionary with string keys.\<close>

lemma json_loads_dumps:
  assumes "distinct (map fst d)" and "list_all (\<lambda>kv. is_str_key (fst kv)) d"
    and "list_all (\<lambda>kv. json_scalar rd (snd kv)) d"
  shows "json_loads rd (json_dumps d) = Some d"
  using json_loads_dumps_keys [OF assms(3)] str_keys_map [OF assms(2)]
    py_dict_distinct [OF assms(1)]
  by simp

section \<open>Properties\<close>

lemma runs_skip: "runs I Q [] skip"
  by (simp add: runs_def skip_def)

lemma runs_seq:
  assumes "runs I Q ns1 f" and "runs I Q ns2 g"
  shows "runs I Q (ns1 @ ns2) (seq f g)"
  unfolding runs_def
proof (intro allI impI)
  fix w :: "'a world"
  assume Iw: "I w"
  from assms(1) Iw obtain es1 where
    I1: "I (snd (f w))" and h1: "history (snd (f w)) = history w @ es1"
    and q1: "\<forall>e \<in> set es1. Q e" and b1: "\<forall>e \<in> set (butlast es1). outcome e"
    and r1: "case fst (f w) of
                 Inr u \<Rightarrow> map step es1 = ns1 \<and> (\<forall>e \<in> set es1. outcome e)
               | Inl x \<Rightarrow> es1 \<noteq> [] \<and> prefix (map step es1) ns1 \<and> \<not> outcome (last es1) \<and>
                          x = ExecutionException (the_call (last es1))"
    unfolding runs_def by blast
  show "I (snd (seq f g w)) \<and>
        (\<exists>es. history (snd (seq f g w)) = history w @ es \<and>
              (\<forall>e \<in> set es. Q e) \<and>
              (\<forall>e \<in> set (butlast es). outcome e) \<and>
              (case fst (seq f g w) of
                 Inr u \<Rightarrow> map step es = ns1 @ ns2 \<and> (\<forall>e \<in> set es. outcome e)
               | Inl x \<Rightarrow> es \<noteq> [] \<and> prefix (map step es) (ns1 @ ns2) \<and> \<not> outcome (last es) \<and>
                          x = ExecutionException (the_call (last es))))"
  proof (cases "fst (f w)")
    case (Inl x)
    then have s: "seq f g w = f w"
      by (cases "f w") (simp add: seq_def)
    from r1 Inl have "es1 \<noteq> [] \<and> prefix (map step es1) (ns1 @ ns2) \<and> \<not> outcome (last es1) \<and>
        x = ExecutionException (the_call (last es1))"
      by (auto intro: prefix_prefix)
    with I1 h1 q1 b1 Inl s show ?thesis
      by auto
  next
    case (Inr u)
    then have s: "seq f g w = g (snd (f w))"
      by (cases "f w") (simp add: seq_def)
    from r1 Inr have m1: "map step es1 = ns1" and o1: "\<forall>e \<in> set es1. outcome e"
      by auto
    from assms(2) I1 obtain es2 where
      I2: "I (snd (g (snd (f w))))" and h2: "history (snd (g (snd (f w)))) = history (snd (f w)) @ es2"
      and q2: "\<forall>e \<in> set es2. Q e" and b2: "\<forall>e \<in> set (butlast es2). outcome e"
      and r2: "case fst (g (snd (f w))) of
                 Inr u \<Rightarrow> map step es2 = ns2 \<and> (\<forall>e \<in> set es2. outcome e)
               | Inl x \<Rightarrow> es2 \<noteq> [] \<and> prefix (map step es2) ns2 \<and> \<not> outcome (last es2) \<and>
                          x = ExecutionException (the_call (last es2))"
      unfolding runs_def by blast
    have bl: "\<forall>e \<in> set (butlast (es1 @ es2)). outcome e"
      using o1 b2 b1 by (auto simp: butlast_append)
    have "case fst (g (snd (f w))) of
                 Inr u \<Rightarrow> map step (es1 @ es2) = ns1 @ ns2 \<and> (\<forall>e \<in> set (es1 @ es2). outcome e)
               | Inl x \<Rightarrow> es1 @ es2 \<noteq> [] \<and> prefix (map step (es1 @ es2)) (ns1 @ ns2) \<and>
                          \<not> outcome (last (es1 @ es2)) \<and>
                          x = ExecutionException (the_call (last (es1 @ es2)))"
      using r2 m1 o1 by (auto split: sum.splits)
    with I2 h2 h1 q1 q2 bl s show ?thesis
      by (intro conjI exI [of _ "es1 @ es2"]) auto
  qed
qed

lemma runs_call:
  assumes inv: "\<And>w h x. I w \<Longrightarrow> I ((pre w)\<lparr>history := h, backend := x\<rparr>)"
    and hist: "\<And>w. history (pre w) = history w"
    and q: "\<And>w ok. I w \<Longrightarrow> Q \<lparr>step = n, the_call = c w, fs_at = fsys (pre w), outcome = ok\<rparr>"
  shows "runs I Q [n] (\<lambda>w. mlflow_run run n (c w) (pre w))"
  unfolding runs_def
proof (intro allI impI)
  fix w :: "'a world"
  assume Iw: "I w"
  obtain ok x where r: "run (c w) (backend (pre w)) = (ok, x)"
    by (cases "run (c w) (backend (pre w))")
  let ?e = "\<lparr>step = n, the_call = c w, fs_at = fsys (pre w), outcome = ok\<rparr>"
  have res: "mlflow_run run n (c w) (pre w) =
      (if ok then Inr () else Inl (ExecutionException (c w)),
       (pre w)\<lparr>history := history w @ [?e], backend := x\<rparr>)"
    by (simp add: mlflow_run_def r hist)
  show "I (snd (mlflow_run run n (c w) (pre w))) \<and>
        (\<exists>es. history (snd (mlflow_run run n (c w) (pre w))) = history w @ es \<and>
              (\<forall>e \<in> set es. Q e) \<and>
              (\<forall>e \<in> set (butlast es). outcome e) \<and>
              (case fst (mlflow_run run n (c w) (pre w)) of
                 Inr u \<Rightarrow> map step es = [n] \<and> (\<forall>e \<in> set es. outcome e)
               | Inl x \<Rightarrow> es \<noteq> [] \<and> prefix (map step es) [n] \<and> \<not> outcome (last es) \<and>
                          x = ExecutionException (the_call (last es))))"
    unfolding res using inv [OF Iw] q [OF Iw, of ok]
    by (intro conjI exI [of _ "[?e]"]) auto
qed

lemma runs_download:
  "runs (body_inv t d) (entry_ok cfg active t d) (filter (\<lambda>n. n \<in> set active) [''download''])
     (download_block run cfg active)"
proof (cases "''download'' \<in> set active")
  case True
  then show ?thesis
    unfolding download_block_def
    by (simp, intro runs_call [where pre = "\<lambda>w. w"]) (simp_all add: body_inv_def entry_ok_def)
next
  case False
  then show ?thesis
    by (simp add: download_block_def runs_skip)
qed

lemma runs_train_random_forest:
  "runs (body_inv t d) (entry_ok cfg active t d) (filter (\<lambda>n. n \<in> set active) [''train_random_forest''])
     (train_random_forest_block run cfg active)"
proof (cases "''train_random_forest'' \<in> set active")
  case True
  have "runs (body_inv t d) (entry_ok cfg active t d) [''train_random_forest'']
     (\<lambda>w. mlflow_run run ''train_random_forest''
          \<lparr>run_name = Some ''train_random_forest'',
           uri = path_str (original_cwd w @ [''src'', ''train_random_forest'']),
           entry_point = ''main'',
           version = None,
           env_manager = ''local'',
           parameters =
             [(''trainval_artifact'', PyStr ''trainval_data.csv:latest''),
              (''val_size'', PyStr (py_str (val_size (modeling cfg)))),
              (''random_seed'', PyStr (py_str (random_seed (modeling cfg)))),
              (''stratify_by'', stratify_by (modeling cfg)),
              (''rf_config'', PyStr (path_str (rf_config_path w))),
              (''max_tfidf_features'', PyStr (py_str (max_tfidf_features (modeling cfg)))),
              (''output_artifact'', PyStr ''random_forest_export'')]\<rparr>
          (write_rf_config cfg w))"
    using True
    by (intro runs_call)
       (simp_all add: body_inv_def entry_ok_def write_rf_config_def rf_config_path_def)
  with True show ?thesis
    by (simp add: train_random_forest_block_def [abs_def])
next
  case False
  then show ?thesis
    by (simp add: train_random_forest_block_def [abs_def] runs_skip)
qed

lemma runs_basic_cleaning:
  "runs (body_inv t d) (entry_ok cfg active t d) (filter (\<lambda>n. n \<in> set active) [''basic_cleaning''])
     (basic_cleaning_block run cfg active)"
proof (cases "''basic_cleaning'' \<in> set active")
  case True
  then show ?thesis
    unfolding basic_cleaning_block_def [abs_def]
    by (simp, intro runs_call [where pre = "\<lambda>w. w"]) (simp_all add: body_inv_def entry_ok_def)
next
  case False
  then show ?thesis
    by (simp add: basic_cleaning_block_def [abs_def] runs_skip)
qed

lemma runs_data_check:
  "runs (body_inv t d) (entry_ok cfg active t d) (filter (\<lambda>n. n \<in> set active) [''data_check''])
     (data_check_block run cfg active)"
proof (cases "''data_check'' \<in> set active")
  case True
  then show ?thesis
    unfolding data_check_block_def [abs_def]
    by (simp, intro runs_call [where pre = "\<lambda>w. w"]) (simp_all add: body_inv_def entry_ok_def)
next
  case False
  then show ?thesis
    by (simp add: data_check_block_def [abs_def] runs_skip)
qed

lemma runs_data_split:
  "runs (body_inv t d) (entry_ok cfg active t d) (filter (\<lambda>n. n \<in> set active) [''data_split''])
     (data_split_block run cfg active)"
proof (cases "''data_split'' \<in> set active")
  case True
  then show ?thesis
    unfolding data_split_block_def
    by (simp, intro runs_call [where pre = "\<lambda>w. w"]) (simp_all add: body_inv_def entry_ok_def)
next
  case False
  then show ?thesis
    by (simp add: data_split_block_def runs_skip)
qed

lemma runs_test_regression_model:
  "runs (body_inv t d) (entry_ok cfg active t d)
     (filter (\<lambda>n. n \<in> set active) [''test_regression_model''])
     (test_regression_model_block run cfg active)"
proof (cases "''test_regression_model'' \<in> set active")
  case True
  then show ?thesis
    unfolding test_regression_model_block_def
    by (simp, intro runs_call [where pre = "\<lambda>w. w"]) (simp_all add: body_inv_def entry_ok_def)
next
  case False
  then show ?thesis
    by (simp add: test_regression_model_block_def runs_skip)
qed

lemma registry_split:
  "filter P registry =
     filter P [''download''] @ filter P [''basic_cleaning''] @ filter P [''data_check''] @
     filter P [''data_split''] @ filter P [''train_random_forest''] @
     filter P [''test_regression_model'']"
  unfolding registry_def default_steps_def filter_append [symmetric] by simp

lemma runs_body:
  "runs (body_inv t d) (entry_ok cfg active t d) (filter (\<lambda>n. n \<in> set active) registry)
     (body run cfg active)"
  unfolding body_def registry_split
  by (intro runs_seq runs_download runs_basic_cleaning runs_data_check runs_data_split
        runs_train_random_forest runs_test_regression_model)

text \<open>What the driver does, in one statement.\<close>

lemma go_history:
  "\<exists>es. history (snd (go run cfg t w)) = history w @ es \<and>
     (\<forall>e \<in> set es. entry_ok cfg (active_steps cfg) t (cwd (fsys w)) e) \<and>
     (\<forall>e \<in> set (butlast es). outcome e) \<and>
     (case fst (go run cfg t w) of
       Inr u \<Rightarrow> map step es = filter (\<lambda>n. n \<in> set (active_steps cfg)) registry \<and>
                (\<forall>e \<in> set es. outcome e)
     | Inl x \<Rightarrow> es \<noteq> [] \<and>
                prefix (map step es) (filter (\<lambda>n. n \<in> set (active_steps cfg)) registry) \<and>
                \<not> outcome (last es) \<and> x = ExecutionException (the_call (last es)))"
proof -
  let ?w1 = "mkdtemp t (set_environ cfg w)"
  let ?b = "body run cfg (active_steps cfg)"
  have I: "body_inv t (cwd (fsys w)) ?w1"
    by (simp add: body_inv_def mkdtemp_def set_environ_def)
  have h1: "history ?w1 = history w"
    by (simp add: mkdtemp_def set_environ_def)
  have g: "go run cfg t w = (fst (?b ?w1), cleanup t (snd (?b ?w1)))"
    by (simp add: go_def with_temporary_directory_def split: prod.splits)
  have hc: "history (snd (go run cfg t w)) = history (snd (?b ?w1))"
    by (simp add: g cleanup_def)
  have fg: "fst (go run cfg t w) = fst (?b ?w1)"
    by (simp add: g)
  from runs_body [of t "cwd (fsys w)" cfg "active_steps cfg" run] I
  show ?thesis
    unfolding runs_def hc fg h1 [symmetric] by blast
qed

lemma invocations_facts:
  "(\<forall>e \<in> set (invocations run cfg t w). entry_ok cfg (active_steps cfg) t (cwd (fsys w)) e) \<and>
   (\<forall>e \<in> set (butlast (invocations run cfg t w)). outcome e) \<and>
   (case fst (go run cfg t w) of
       Inr u \<Rightarrow> steps_run run cfg t w = filter (\<lambda>n. n \<in> set (active_steps cfg)) registry \<and>
                (\<forall>e \<in> set (invocations run cfg t w). outcome e)
     | Inl x \<Rightarrow> invocations run cfg t w \<noteq> [] \<and>
                prefix (steps_run run cfg t w)
                  (filter (\<lambda>n. n \<in> set (active_steps cfg)) registry) \<and>
                \<not> outcome (last (invocations run cfg t w)) \<and>
                x = ExecutionException (the_call (last (invocations run cfg t w))))"
proof -
  from go_history [of run cfg t w] obtain es where
    h: "history (snd (go run cfg t w)) = history w @ es"
    and rest: "(\<forall>e \<in> set es. entry_ok cfg (active_steps cfg) t (cwd (fsys w)) e) \<and>
     (\<forall>e \<in> set (butlast es). outcome e) \<and>
     (case fst (go run cfg t w) of
       Inr u \<Rightarrow> map step es = filter (\<lambda>n. n \<in> set (active_steps cfg)) registry \<and>
                (\<forall>e \<in> set es. outcome e)
     | Inl x \<Rightarrow> es \<noteq> [] \<and>
                prefix (map step es) (filter (\<lambda>n. n \<in> set (active_steps cfg)) registry) \<and>
                \<not> outcome (last es) \<and> x = ExecutionException (the_call (last es)))"
    by blast
  have eq: "invocations run cfg t w = es"
    by (simp add: invocations_def h)
  show ?thesis
    unfolding steps_run_def eq by (rule rest)
qed

lemma steps_run_prefix:
  "prefix (steps_run run cfg t w) (filter (\<lambda>n. n \<in> set (active_steps cfg)) registry)"
  using invocations_facts [of run cfg t w] by (auto split: sum.splits)

lemma distinct_registry: "distinct registry"
  by (simp add: registry_def default_steps_def)

lemma steps_run_distinct: "distinct (steps_run run cfg t w)"
proof -
  have "distinct (filter (\<lambda>n. n \<in> set (active_steps cfg)) registry)"
    using distinct_registry by simp
  with steps_run_prefix [of run cfg t w] show ?thesis
    by (auto simp: prefix_def)
qed

lemmas driver_defs =
  steps_run_def invocations_def go_def with_temporary_directory_def body_def seq_def skip_def
  download_block_def basic_cleaning_block_def data_check_block_def data_split_block_def
  train_random_forest_block_def test_regression_model_block_def mlflow_run_def
  active_steps_def default_steps_def mkdtemp_def cleanup_def set_environ_def
  write_rf_config_def rf_config_path_def

lemmas example_defs =
  example_config_def request_def example_world_def example_tmp_def always_ok_def failing_def

subsection \<open>Selection and order\<close>

text \<open>
  Claim C1. Whatever the requested string and whatever the steps do, the steps that the
  driver runs are steps of the registry, each of them requested, and they run in the order
  of the registry. When the invocation returns, they are exactly the requested steps of the
  registry in that order, so that the order of the tokens in the request plays no part:
  \<^verbatim>\<open>"data_split,download"\<close> runs \<^verbatim>\<open>download\<close>, then \<^verbatim>\<open>data_split\<close>.
\<close>

theorem steps_run_registry_order:
  "subseq (steps_run run cfg tmp_dir w) registry \<and>
   set (steps_run run cfg tmp_dir w) \<subseteq> set (active_steps cfg) \<and>
   (fst (go run cfg tmp_dir w) = Inr () \<longrightarrow>
      steps_run run cfg tmp_dir w = filter (\<lambda>n. n \<in> set (active_steps cfg)) registry)"
proof (intro conjI impI)
  let ?sel = "filter (\<lambda>n. n \<in> set (active_steps cfg)) registry"
  have p: "prefix (steps_run run cfg tmp_dir w) ?sel"
    by (rule steps_run_prefix)
  then have "subseq (steps_run run cfg tmp_dir w) ?sel"
    by (rule prefix_imp_subseq)
  then show "subseq (steps_run run cfg tmp_dir w) registry"
    by (rule subseq_order.order_trans) simp
  from p have "set (steps_run run cfg tmp_dir w) \<subseteq> set ?sel"
    by (rule set_mono_prefix)
  then show "set (steps_run run cfg tmp_dir w) \<subseteq> set (active_steps cfg)"
    by auto
next
  assume "fst (go run cfg tmp_dir w) = Inr ()"
  with invocations_facts [of run cfg tmp_dir w]
  show "steps_run run cfg tmp_dir w = filter (\<lambda>n. n \<in> set (active_steps cfg)) registry"
    by simp
qed

theorem steps_run_registry_order_witness:
  "fst (go always_ok (request ''data_split,download'') example_tmp example_world) = Inr () \<and>
   steps_run always_ok (request ''data_split,download'') example_tmp example_world =
     [''download'', ''data_split'']"
proof -
  let ?cfg = "request ''data_split,download''"
  have ok: "fst (go always_ok ?cfg example_tmp example_world) = Inr ()"
    by (simp add: driver_defs example_defs)
  with steps_run_registry_order [of always_ok ?cfg example_tmp example_world]
  have "steps_run always_ok ?cfg example_tmp example_world =
      filter (\<lambda>n. n \<in> set (active_steps ?cfg)) registry"
    by blast
  also have "\<dots> = [''download'', ''data_split'']"
    by (simp add: active_steps_def registry_def default_steps_def example_defs)
  finally show ?thesis
    using ok by simp
qed

lemma count_list_distinct:
  "distinct xs \<Longrightarrow> count_list xs n = (if n \<in> set xs then 1 else 0)"
  by (induction xs) auto

text \<open>
  Claim C10. A step runs at most once in an invocation, however often its name is written
  in the request, and exactly once when it is requested, has a block in \<^verbatim>\<open>go\<close> and
  the invocation returns: \<^verbatim>\<open>"download,download"\<close> runs \<^verbatim>\<open>download\<close> once.
\<close>

theorem step_runs_at_most_once:
  "count_list (steps_run run cfg tmp_dir w) n \<le> 1 \<and>
   (fst (go run cfg tmp_dir w) = Inr () \<and> n \<in> set (active_steps cfg) \<and> n \<in> set registry \<longrightarrow>
      count_list (steps_run run cfg tmp_dir w) n = 1)"
proof (intro conjI impI)
  have d: "distinct (steps_run run cfg tmp_dir w)"
    by (rule steps_run_distinct)
  then show "count_list (steps_run run cfg tmp_dir w) n \<le> 1"
    by (simp add: count_list_distinct)
  assume a: "fst (go run cfg tmp_dir w) = Inr () \<and> n \<in> set (active_steps cfg) \<and> n \<in> set registry"
  with invocations_facts [of run cfg tmp_dir w]
  have "steps_run run cfg tmp_dir w = filter (\<lambda>n. n \<in> set (active_steps cfg)) registry"
    by simp
  with a have "n \<in> set (steps_run run cfg tmp_dir w)"
    by simp
  with d show "count_list (steps_run run cfg tmp_dir w) n = 1"
    by (simp add: count_list_distinct)
qed

theorem step_runs_at_most_once_witness:
  "split_comma ''download,download'' = [''download'', ''download''] \<and>
   fst (go always_ok (request ''download,download'') example_tmp example_world) = Inr () \<and>
   count_list (steps_run always_ok (request ''download,download'') example_tmp example_world)
     ''download'' = 1"
proof -
  let ?cfg = "request ''download,download''"
  have ok: "fst (go always_ok ?cfg example_tmp example_world) = Inr ()"
    by (simp add: driver_defs example_defs)
  have sel: "''download'' \<in> set (active_steps ?cfg) \<and> ''download'' \<in> set registry"
    by (simp add: active_steps_def registry_def default_steps_def example_defs)
  from step_runs_at_most_once [of always_ok ?cfg example_tmp example_world "''download''"] ok sel
  have "count_list (steps_run always_ok ?cfg example_tmp example_world) ''download'' = 1"
    by blast
  with ok show ?thesis
    by simp
qed

text \<open>
  Claim C3. The request \<^verbatim>\<open>"all"\<close> selects the five default steps:
  \<^verbatim>\<open>test_regression_model\<close> never runs under it, and the five run, in order, when none
  fails. The request \<^verbatim>\<open>"test_regression_model"\<close> runs that step and no other.
\<close>

theorem all_excludes_test_regression_model:
  "(steps (main cfg) = ''all'' \<longrightarrow>
      active_steps cfg =
        [''download'', ''basic_cleaning'', ''data_check'', ''data_split'', ''train_random_forest''] \<and>
      ''test_regression_model'' \<notin> set (steps_run run cfg tmp_dir w) \<and>
      (fst (go run cfg tmp_dir w) = Inr () \<longrightarrow>
         steps_run run cfg tmp_dir w =
           [''download'', ''basic_cleaning'', ''data_check'', ''data_split'',
            ''train_random_forest''])) \<and>
   (steps (main cfg) = ''test_regression_model'' \<longrightarrow>
      steps_run run cfg tmp_dir w = [''test_regression_model''])"
proof (intro conjI impI)
  assume a: "steps (main cfg) = ''all''"
  then show act: "active_steps cfg =
        [''download'', ''basic_cleaning'', ''data_check'', ''data_split'', ''train_random_forest'']"
    by (simp add: active_steps_def default_steps_def)
  then have sel: "filter (\<lambda>n. n \<in> set (active_steps cfg)) registry =
      [''download'', ''basic_cleaning'', ''data_check'', ''data_split'', ''train_random_forest'']"
    by (simp add: registry_def default_steps_def)
  from steps_run_prefix [of run cfg tmp_dir w]
  have "set (steps_run run cfg tmp_dir w) \<subseteq>
      set (filter (\<lambda>n. n \<in> set (active_steps cfg)) registry)"
    by (rule set_mono_prefix)
  then show "''test_regression_model'' \<notin> set (steps_run run cfg tmp_dir w)"
    unfolding sel by auto
  assume "fst (go run cfg tmp_dir w) = Inr ()"
  with invocations_facts [of run cfg tmp_dir w] sel
  show "steps_run run cfg tmp_dir w =
      [''download'', ''basic_cleaning'', ''data_check'', ''data_split'', ''train_random_forest'']"
    by simp
next
  assume a: "steps (main cfg) = ''test_regression_model''"
  then have sel: "filter (\<lambda>n. n \<in> set (active_steps cfg)) registry = [''test_regression_model'']"
    by (simp add: active_steps_def registry_def default_steps_def)
  show "steps_run run cfg tmp_dir w = [''test_regression_model'']"
  proof (cases "fst (go run cfg tmp_dir w)")
    case (Inl x)
    with invocations_facts [of run cfg tmp_dir w]
    have "invocations run cfg tmp_dir w \<noteq> []"
      and "prefix (steps_run run cfg tmp_dir w) [''test_regression_model'']"
      unfolding sel by simp_all
    then show ?thesis
      by (cases "steps_run run cfg tmp_dir w") (auto simp: steps_run_def)
  next
    case (Inr u)
    with invocations_facts [of run cfg tmp_dir w] sel show ?thesis
      by simp
  qed
qed

theorem all_excludes_test_regression_model_witness:
  "steps (main (request ''all'')) = ''all'' \<and>
   steps_run always_ok (request ''all'') example_tmp example_world =
     [''download'', ''basic_cleaning'', ''data_check'', ''data_split'', ''train_random_forest''] \<and>
   steps (main (request ''test_regression_model'')) = ''test_regression_model'' \<and>
   steps_run (failing ''test_regression_model'') (request ''test_regression_model'')
     example_tmp example_world = [''test_regression_model'']"
proof -
  have s1: "steps (main (request ''all'')) = ''all''"
    and s2: "steps (main (request ''test_regression_model'')) = ''test_regression_model''"
    by (simp_all add: example_defs)
  have ok: "fst (go always_ok (request ''all'') example_tmp example_world) = Inr ()"
    by (simp add: driver_defs example_defs)
  from all_excludes_test_regression_model [of "request ''all''" always_ok example_tmp example_world]
    s1 ok
  have r1: "steps_run always_ok (request ''all'') example_tmp example_world =
     [''download'', ''basic_cleaning'', ''data_check'', ''data_split'', ''train_random_forest'']"
    by blast
  from all_excludes_test_regression_model [of "request ''test_regression_model''"
      "failing ''test_regression_model''" example_tmp example_world] s2
  have r2: "steps_run (failing ''test_regression_model'') (request ''test_regression_model'')
     example_tmp example_world = [''test_regression_model'']"
    by blast
  from s1 s2 r1 r2 show ?thesis
    by simp
qed

subsection \<open>The temporary directory\<close>

text \<open>
  Claim C6. The temporary directory exists at every step invocation, and when \<^verbatim>\<open>go\<close>
  is left, by return or by the exception of a failed step, neither the directory nor
  anything below it exists.
\<close>

theorem temporary_directory_scoped:
  "(\<forall>e \<in> set (invocations run cfg tmp_dir w). dirs (fs_at e) tmp_dir) \<and>
   (\<forall>p. prefix tmp_dir p \<longrightarrow>
      \<not> dirs (fsys (snd (go run cfg tmp_dir w))) p \<and>
      files (fsys (snd (go run cfg tmp_dir w))) p = None)"
proof (intro conjI ballI allI impI)
  fix e
  assume "e \<in> set (invocations run cfg tmp_dir w)"
  with invocations_facts [of run cfg tmp_dir w] show "dirs (fs_at e) tmp_dir"
    by (simp add: entry_ok_def)
next
  fix p
  assume "prefix tmp_dir p"
  then show "\<not> dirs (fsys (snd (go run cfg tmp_dir w))) p"
    and "files (fsys (snd (go run cfg tmp_dir w))) p = None"
    by (simp_all add: go_def with_temporary_directory_def cleanup_def split: prod.splits)
qed

theorem temporary_directory_scoped_witness:
  "fst (go (failing ''data_check'') (request ''all'') example_tmp example_world) \<noteq> Inr () \<and>
   length (invocations (failing ''data_check'') (request ''all'') example_tmp example_world) = 3 \<and>
   list_all (\<lambda>e. dirs (fs_at e) example_tmp)
     (invocations (failing ''data_check'') (request ''all'') example_tmp example_world) \<and>
   \<not> dirs (fsys example_world) example_tmp \<and>
   prefix example_tmp example_tmp \<and>
   \<not> dirs (fsys (snd (go (failing ''data_check'') (request ''all'') example_tmp example_world)))
       example_tmp"
proof -
  have "fst (go (failing ''data_check'') (request ''all'') example_tmp example_world) \<noteq> Inr ()"
    and "length (invocations (failing ''data_check'') (request ''all'') example_tmp example_world) = 3"
    and "\<not> dirs (fsys example_world) example_tmp"
    by (simp_all add: driver_defs example_defs)
  with temporary_directory_scoped [of "failing ''data_check''" "request ''all''" example_tmp
      example_world]
  show ?thesis
    by (simp add: list_all_iff)
qed

subsection \<open>Failure\<close>

text \<open>
  Claim C7. When a step invocation fails, it is the last invocation of the history: no
  later step runs, the failed step is not run again, the steps run are the requested steps
  of the registry up to the failed one, and \<^verbatim>\<open>go\<close> raises the exception of that call.
\<close>

theorem failure_halts_pipeline:
  assumes "i < length (invocations run cfg tmp_dir w)"
    and "\<not> outcome (invocations run cfg tmp_dir w ! i)"
  shows "Suc i = length (invocations run cfg tmp_dir w) \<and>
         fst (go run cfg tmp_dir w) =
           Inl (ExecutionException (the_call (invocations run cfg tmp_dir w ! i))) \<and>
         steps_run run cfg tmp_dir w =
           take (Suc i) (filter (\<lambda>n. n \<in> set (active_steps cfg)) registry) \<and>
         distinct (steps_run run cfg tmp_dir w)"
proof -
  let ?es = "invocations run cfg tmp_dir w"
  note facts = invocations_facts [of run cfg tmp_dir w]
  have ne: "?es \<noteq> []"
    using assms(1) by auto
  have last: "Suc i = length ?es"
  proof (rule ccontr)
    assume "Suc i \<noteq> length ?es"
    with assms(1) have "i < length (butlast ?es)"
      by simp
    then have "butlast ?es ! i \<in> set (butlast ?es)"
      by (rule nth_mem)
    moreover have "butlast ?es ! i = ?es ! i"
      using \<open>i < length (butlast ?es)\<close> by (rule nth_butlast)
    ultimately show False
      using facts assms(2) by auto
  qed
  have "length ?es - 1 = i"
    using last by arith
  then have il: "?es ! i = last ?es"
    using ne by (simp add: last_conv_nth)
  have mem: "?es ! i \<in> set ?es"
    using assms(1) by (rule nth_mem)
  obtain x where err: "fst (go run cfg tmp_dir w) = Inl x"
    using facts mem assms(2) by (cases "fst (go run cfg tmp_dir w)") auto
  with facts have x: "x = ExecutionException (the_call (last ?es))"
    and p: "prefix (steps_run run cfg tmp_dir w)
        (filter (\<lambda>n. n \<in> set (active_steps cfg)) registry)"
    by simp_all
  have len: "length (steps_run run cfg tmp_dir w) = Suc i"
    using last by (simp add: steps_run_def)
  from p have "steps_run run cfg tmp_dir w =
      take (length (steps_run run cfg tmp_dir w))
        (filter (\<lambda>n. n \<in> set (active_steps cfg)) registry)"
    by (auto simp: prefix_def)
  with len have t: "steps_run run cfg tmp_dir w =
      take (Suc i) (filter (\<lambda>n. n \<in> set (active_steps cfg)) registry)"
    by simp
  show ?thesis
    using last err x il t steps_run_distinct [of run cfg tmp_dir w] by simp
qed

theorem failure_halts_pipeline_witness:
  "1 < length (invocations (failing ''basic_cleaning'') (request ''all'') example_tmp example_world) \<and>
   \<not> outcome (invocations (failing ''basic_cleaning'') (request ''all'') example_tmp example_world ! 1) \<and>
   steps_run (failing ''basic_cleaning'') (request ''all'') example_tmp example_world =
     [''download'', ''basic_cleaning''] \<and>
   (\<exists>c. fst (go (failing ''basic_cleaning'') (request ''all'') example_tmp example_world) =
      Inl (ExecutionException c) \<and> run_name c = Some ''basic_cleaning'')"
proof -
  let ?es = "invocations (failing ''basic_cleaning'') (request ''all'') example_tmp example_world"
  have h1: "1 < length ?es" and h2: "\<not> outcome (?es ! 1)"
    and rn: "run_name (the_call (?es ! 1)) = Some ''basic_cleaning''"
    by (simp_all add: driver_defs example_defs)
  have sel: "take (Suc 1) (filter (\<lambda>n. n \<in> set (active_steps (request ''all''))) registry) =
      [''download'', ''basic_cleaning'']"
    by (simp add: active_steps_def registry_def default_steps_def example_defs)
  from failure_halts_pipeline [OF h1 h2] sel rn h1 h2 show ?thesis
    by simp
qed

subsection \<open>Names that are not in the registry\<close>

text \<open>
  Claim C2 says that a request with a name outside the registry fails before any step
  runs. The driver has no such check: with \<^verbatim>\<open>"download,nonexistent_step"\<close> the step
  \<^verbatim>\<open>download\<close> runs and \<^verbatim>\<open>go\<close> returns.
\<close>

theorem unknown_step_no_error_counterexample:
  "''nonexistent_step'' \<in> set (split_comma ''download,nonexistent_step'') \<and>
   ''nonexistent_step'' \<notin> set registry \<and>
   fst (go always_ok (request ''download,nonexistent_step'') example_tmp example_world) = Inr () \<and>
   steps_run always_ok (request ''download,nonexistent_step'') example_tmp example_world =
     [''download'']"
  by (simp add: driver_defs example_defs registry_def)

text \<open>The body depends on the request only through the six membership tests.\<close>

lemma body_cong:
  assumes "\<forall>n \<in> set registry. n \<in> set a \<longleftrightarrow> n \<in> set a'"
    and "cfg' = cfg\<lparr>main := (main cfg)\<lparr>steps := s\<rparr>\<rparr>"
  shows "body run cfg' a' = body run cfg a"
proof -
  have m: "''download'' \<in> set a' \<longleftrightarrow> ''download'' \<in> set a"
    "''basic_cleaning'' \<in> set a' \<longleftrightarrow> ''basic_cleaning'' \<in> set a"
    "''data_check'' \<in> set a' \<longleftrightarrow> ''data_check'' \<in> set a"
    "''data_split'' \<in> set a' \<longleftrightarrow> ''data_split'' \<in> set a"
    "''train_random_forest'' \<in> set a' \<longleftrightarrow> ''train_random_forest'' \<in> set a"
    "''test_regression_model'' \<in> set a' \<longleftrightarrow> ''test_regression_model'' \<in> set a"
    using assms(1) by (simp_all add: registry_def default_steps_def)
  have "download_block run cfg' a' = download_block run cfg a"
    by (simp add: download_block_def m assms(2))
  moreover have "basic_cleaning_block run cfg' a' = basic_cleaning_block run cfg a"
    by (rule ext) (simp add: basic_cleaning_block_def m assms(2))
  moreover have "data_check_block run cfg' a' = data_check_block run cfg a"
    by (rule ext) (simp add: data_check_block_def m assms(2))
  moreover have "data_split_block run cfg' a' = data_split_block run cfg a"
    by (simp add: data_split_block_def m assms(2))
  moreover have "train_random_forest_block run cfg' a' = train_random_forest_block run cfg a"
    by (rule ext) (simp add: train_random_forest_block_def m assms(2) write_rf_config_def)
  moreover have "test_regression_model_block run cfg' a' = test_regression_model_block run cfg a"
    by (simp add: test_regression_model_block_def m assms(2))
  ultimately show ?thesis
    by (simp add: body_def)
qed

text \<open>
  Claim C2, amended. A name that is not in the registry is ignored: two requests that name
  the same steps of the registry give the same result and the same final world, whatever
  else they name.
\<close>

theorem unknown_names_ignored:
  assumes "\<forall>n \<in> set registry. n \<in> set (active_steps cfg) \<longleftrightarrow> n \<in> set (active_steps cfg')"
    and "cfg' = cfg\<lparr>main := (main cfg)\<lparr>steps := s\<rparr>\<rparr>"
  shows "go run cfg' tmp_dir w = go run cfg tmp_dir w"
proof -
  have "body run cfg' (active_steps cfg') = body run cfg (active_steps cfg)"
    using assms by (rule body_cong)
  moreover have "set_environ cfg' w = set_environ cfg w"
    by (simp add: set_environ_def assms(2))
  ultimately show ?thesis
    by (simp add: go_def)
qed

theorem unknown_names_ignored_witness:
  "list_all (\<lambda>n. n \<in> set (active_steps (request ''download'')) \<longleftrightarrow>
       n \<in> set (active_steps (request ''download,nonexistent_step''))) registry \<and>
   go always_ok (request ''download,nonexistent_step'') example_tmp example_world =
     go always_ok (request ''download'') example_tmp example_world \<and>
   fst (go always_ok (request ''download'') example_tmp example_world) = Inr ()"
proof -
  have h: "\<forall>n \<in> set registry. n \<in> set (active_steps (request ''download'')) \<longleftrightarrow>
       n \<in> set (active_steps (request ''download,nonexistent_step''))"
    by (simp add: registry_def default_steps_def active_steps_def example_defs)
  have c: "request ''download,nonexistent_step'' =
      (request ''download'')\<lparr>main := (main (request ''download''))
         \<lparr>steps := ''download,nonexistent_step''\<rparr>\<rparr>"
    by (simp add: example_defs)
  have ok: "fst (go always_ok (request ''download'') example_tmp example_world) = Inr ()"
    by (simp add: driver_defs example_defs)
  from unknown_names_ignored [OF h c, of always_ok example_tmp example_world] h ok
  show ?thesis
    by (simp add: list_all_iff)
qed

subsection \<open>The hyperparameter file\<close>

text \<open>
  Nothing changes the working directory, so the file is written in the directory the
  invocation started in. When that is not below the temporary directory, the file is still
  there when \<^verbatim>\<open>go\<close> is left.
\<close>

lemma rf_config_file_persists:
  assumes "steps (main cfg) = ''train_random_forest''"
    and "\<not> prefix tmp_dir (rf_config_path w)"
  shows "files (fsys (snd (go run cfg tmp_dir w))) (cwd (fsys w) @ [''rf_config.json'']) =
           Some (json_dumps (py_dict (random_forest (modeling cfg))))"
proof -
  show ?thesis
    using assms
    by (simp add: driver_defs split: prod.splits)
qed

text \<open>
  Claim C4 says that the hyperparameter file lies in the temporary directory and is gone
  when the invocation ends. In the example the path passed as \<^verbatim>\<open>rf_config\<close> is in the
  working directory, not below the temporary directory, and the file is still there, with
  its contents, after \<^verbatim>\<open>go\<close> has removed the temporary directory.
\<close>

theorem rf_config_outside_temporary_directory:
  "steps_run always_ok (request ''train_random_forest'') example_tmp example_world =
     [''train_random_forest''] \<and>
   map (\<lambda>e. map_of (parameters (the_call e)) ''rf_config'')
     (invocations always_ok (request ''train_random_forest'') example_tmp example_world) =
     [Some (PyStr ''/home/user/project/outputs/rf_config.json'')] \<and>
   \<not> prefix example_tmp [''home'', ''user'', ''project'', ''outputs'', ''rf_config.json''] \<and>
   files (fsys (snd (go always_ok (request ''train_random_forest'') example_tmp example_world)))
     [''home'', ''user'', ''project'', ''outputs'', ''rf_config.json''] =
     Some (json_dumps (random_forest (modeling example_config))) \<and>
   \<not> dirs (fsys (snd (go always_ok (request ''train_random_forest'') example_tmp example_world)))
       example_tmp"
  by (simp add: driver_defs example_defs path_str_def py_dict_def)

text \<open>
  Claim C5 says that decoding the file gives the mapping back, for every mapping. The
  encoder writes a key that is not a string as a string, and the decoder returns it as a
  string: for the mapping with the integer key 1 the file holds the text of the key
  \<^verbatim>\<open>"1"\<close>, and decoding it gives a mapping whose key is the string, which is not the
  mapping of the configuration.
\<close>

theorem rf_config_integer_key_counterexample:
  "random_forest (modeling int_key_config) = [(KeyInt 1, PyInt 2)] \<and>
   steps_run always_ok int_key_config example_tmp example_world = [''train_random_forest''] \<and>
   files (fs_at (invocations always_ok int_key_config example_tmp example_world ! 0))
     [''home'', ''user'', ''project'', ''outputs'', ''rf_config.json''] =
     Some (json_dumps [(KeyInt 1, PyInt 2)]) \<and>
   json_dumps [(KeyInt 1, PyInt 2)] =
     [CHR ''{'', CHR 0x22, CHR ''1'', CHR 0x22, CHR '':'', CHR '' '', CHR ''2'', CHR ''}''] \<and>
   json_loads example_rd (json_dumps [(KeyInt 1, PyInt 2)]) = Some [(KeyStr ''1'', PyInt 2)] \<and>
   json_loads example_rd (json_dumps [(KeyInt 1, PyInt 2)]) \<noteq>
     Some (random_forest (modeling int_key_config))"
proof -
  have one: "int_str 1 = ''1''" and two: "int_str 2 = ''2''"
    by (simp_all add: int_str_def nat_digits.simps char_of_def bit_iff_odd)
  have rf: "random_forest (modeling int_key_config) = [(KeyInt 1, PyInt 2)]"
    by (simp add: int_key_config_def)
  have run: "steps_run always_ok int_key_config example_tmp example_world =
      [''train_random_forest'']"
    and written: "files (fs_at (invocations always_ok int_key_config example_tmp example_world ! 0))
      [''home'', ''user'', ''project'', ''outputs'', ''rf_config.json''] =
      Some (json_dumps [(KeyInt 1, PyInt 2)])"
    by (simp_all add: driver_defs example_defs int_key_config_def py_dict_def)
  have doc: "json_dumps [(KeyInt 1, PyInt 2)] =
      [CHR ''{'', CHR 0x22, CHR ''1'', CHR 0x22, CHR '':'', CHR '' '', CHR ''2'', CHR ''}'']"
    by (simp add: json_dumps_def json_item_def json_string_def json_escape_char_def one two)
  have "json_loads example_rd (json_dumps [(KeyInt 1, PyInt 2)]) =
      Some (py_dict [(KeyStr (int_str 1), PyInt 2)])"
    using json_loads_dumps_keys [of example_rd "[(KeyInt 1, PyInt 2)]"] by simp
  then have loads: "json_loads example_rd (json_dumps [(KeyInt 1, PyInt 2)]) =
      Some [(KeyStr ''1'', PyInt 2)]"
    by (simp add: one py_dict_def)
  from rf run written doc loads show ?thesis
    by simp
qed

text \<open>
  Claim C5, amended. At the invocation of \<^verbatim>\<open>train_random_forest\<close> the file
  \<^verbatim>\<open>rf_config.json\<close> of the working directory holds the JSON text of
  \<^verbatim>\<open>modeling.random_forest\<close> and its path is the parameter \<^verbatim>\<open>rf_config\<close>. When every
  key of the mapping is a string and every float in it is finite or infinite, decoding the
  text gives the mapping back: the same keys with the same values, no more and no fewer.
\<close>

theorem rf_config_round_trip:
  assumes "distinct (map fst (random_forest (modeling cfg)))"
    and "list_all (\<lambda>kv. is_str_key (fst kv)) (random_forest (modeling cfg))"
    and "list_all (\<lambda>kv. json_scalar rd (snd kv)) (random_forest (modeling cfg))"
    and "e \<in> set (invocations run cfg tmp_dir w)"
    and "step e = ''train_random_forest''"
  shows "files (fs_at e) (cwd (fs_at e) @ [''rf_config.json'']) =
           Some (json_dumps (random_forest (modeling cfg))) \<and>
         json_loads rd (json_dumps (random_forest (modeling cfg))) =
           Some (random_forest (modeling cfg)) \<and>
         map_of (parameters (the_call e)) ''rf_config'' =
           Some (PyStr (path_str (cwd (fs_at e) @ [''rf_config.json''])))"
proof -
  from invocations_facts [of run cfg tmp_dir w] assms(4)
  have "entry_ok cfg (active_steps cfg) tmp_dir (cwd (fsys w)) e"
    by blast
  with assms(5) have "cwd (fs_at e) = cwd (fsys w)"
    and "files (fs_at e) (cwd (fsys w) @ [''rf_config.json'']) =
      Some (json_dumps (py_dict (random_forest (modeling cfg))))"
    and "map_of (parameters (the_call e)) ''rf_config'' =
      Some (PyStr (path_str (cwd (fsys w) @ [''rf_config.json''])))"
    by (simp_all add: entry_ok_def)
  with py_dict_distinct [OF assms(1)] json_loads_dumps [OF assms(1, 2, 3)] show ?thesis
    by simp
qed

theorem rf_config_round_trip_witness:
  "step (invocations always_ok (request ''all'') example_tmp example_world ! 4) =
     ''train_random_forest'' \<and>
   files (fs_at (invocations always_ok (request ''all'') example_tmp example_world ! 4))
     [''home'', ''user'', ''project'', ''outputs'', ''rf_config.json''] =
     Some (json_dumps (random_forest (modeling example_config))) \<and>
   json_loads example_rd (json_dumps (random_forest (modeling example_config))) =
     Some [(KeyStr ''n_estimators'', PyInt 100), (KeyStr ''max_depth'', PyInt 15),
           (KeyStr ''n_jobs'', PyInt (- 1)), (KeyStr ''criterion'', PyStr ''squared_error''),
           (KeyStr ''max_features'', PyFloat ''0.5''), (KeyStr ''oob_score'', PyBool True)]"
proof -
  let ?es = "invocations always_ok (request ''all'') example_tmp example_world"
  have rf: "random_forest (modeling (request ''all'')) =
      [(KeyStr ''n_estimators'', PyInt 100), (KeyStr ''max_depth'', PyInt 15),
       (KeyStr ''n_jobs'', PyInt (- 1)), (KeyStr ''criterion'', PyStr ''squared_error''),
       (KeyStr ''max_features'', PyFloat ''0.5''), (KeyStr ''oob_score'', PyBool True)]"
    and rf': "random_forest (modeling example_config) = random_forest (modeling (request ''all''))"
    by (simp_all add: example_defs)
  have fl: "float_repr example_rd ''0.5''"
    by (simp add: float_repr_def scan_number_def scan_int_part_def scan_frac_def scan_exp_def
        is_digit_def example_rd_def)
  have d: "distinct (map fst (random_forest (modeling (request ''all''))))"
    and ks: "list_all (\<lambda>kv. is_str_key (fst kv)) (random_forest (modeling (request ''all'')))"
    and sc: "list_all (\<lambda>kv. json_scalar example_rd (snd kv))
      (random_forest (modeling (request ''all'')))"
    unfolding rf using fl by simp_all
  have len: "length ?es = 5" and st: "step (?es ! 4) = ''train_random_forest''"
    and cw: "cwd (fs_at (?es ! 4)) = [''home'', ''user'', ''project'', ''outputs'']"
    by (simp_all add: driver_defs example_defs)
  from len have mem: "?es ! 4 \<in> set ?es"
    by simp
  from rf_config_round_trip [OF d ks sc mem st] st cw show ?thesis
    unfolding rf' rf by simp
qed

subsection \<open>Run names and parameter values\<close>

text \<open>
  Claim C8 says that every step runs inside a run named after the step. The call of the
  \<^verbatim>\<open>download\<close> block is not inside any \<^verbatim>\<open>mlflow.start_run\<close>; the other blocks name
  their run.
\<close>

theorem download_run_not_named:
  "steps_run always_ok (request ''download'') example_tmp example_world = [''download''] \<and>
   map (\<lambda>e. run_name (the_call e))
     (invocations always_ok (request ''download'') example_tmp example_world) = [None] \<and>
   map (\<lambda>e. run_name (the_call e))
     (invocations always_ok (request ''all'') example_tmp example_world) =
     [None, Some ''basic_cleaning'', Some ''data_check'', Some ''data_split'',
      Some ''train_random_forest'']"
  by (simp add: driver_defs example_defs)

text \<open>
  Claim C9 says that every parameter value is a string. \<^verbatim>\<open>basic_cleaning\<close> receives
  \<^verbatim>\<open>etl.min_price\<close> as the configuration has it, here the integer 10, whereas
  \<^verbatim>\<open>data_split\<close> receives \<^verbatim>\<open>str\<close> of the random seed.
\<close>

theorem basic_cleaning_prices_not_coerced:
  "min_price (etl (request ''basic_cleaning'')) = PyInt 10 \<and>
   map (\<lambda>e. map_of (parameters (the_call e)) ''min_price'')
     (invocations always_ok (request ''basic_cleaning'') example_tmp example_world) =
     [Some (PyInt 10)] \<and>
   \<not> is_str (PyInt 10) \<and>
   map (\<lambda>e. map_of (parameters (the_call e)) ''random_seed'')
     (invocations always_ok (request ''data_split'') example_tmp example_world) =
     [Some (PyStr ''42'')]"
proof -
  have "int_str 42 = ''42''"
    by code_simp
  then show ?thesis
    by (simp add: driver_defs example_defs)
qed

end
